theory Spec2Isabelle
  imports Complex_Main
begin

section \<open>Job records and the progress tracker\<close>

text \<open>
  The server part of \<^verbatim>\<open>src/public/script.js\<close> keeps one \<^verbatim>\<open>ZipProgressTracker\<close>
  whose \<^verbatim>\<open>activeJobs\<close> map holds one mutable object per job. The five status
  strings the code assigns are a datatype.
\<close>

datatype status = Initializing | Counting | Zipping | Completed | Error

text \<open>
  The \<^verbatim>\<open>progress\<close> field is a JavaScript number: the code stores the literals
  \<^verbatim>\<open>0\<close> and \<^verbatim>\<open>100\<close> and the value of
  \<^verbatim>\<open>Math.round((filesProcessed / totalFiles) * 100)\<close>, which is an integer, or
  \<^verbatim>\<open>Infinity\<close> or \<^verbatim>\<open>NaN\<close> when \<^verbatim>\<open>totalFiles\<close> is 0.
\<close>

datatype jsnum = Num int | Infinity | NaN

record job =
  job_id :: string
  folderPath :: string
  startTime :: nat
  progress :: jsnum
  status :: status
  filesProcessed :: nat
  totalFiles :: nat
  currentFile :: string
  error :: "string option"
  zipPath :: "string option"

text \<open>
  The object literal handed to \<^verbatim>\<open>updateJob\<close>: a field is \<open>None\<close> when the
  literal does not mention it.
\<close>

record updates =
  u_progress :: "jsnum option"
  u_status :: "status option"
  u_filesProcessed :: "nat option"
  u_totalFiles :: "nat option"
  u_currentFile :: "string option"
  u_zipPath :: "string option"

definition no_updates :: updates where
  "no_updates = \<lparr>u_progress = None, u_status = None, u_filesProcessed = None,
     u_totalFiles = None, u_currentFile = None, u_zipPath = None\<rparr>"

text \<open>\<^verbatim>\<open>Object.assign(job, updates)\<close>: every field present in the literal overwrites.\<close>

definition assign :: "job \<Rightarrow> updates \<Rightarrow> job" where
  "assign j u = j
     \<lparr>progress := (case u_progress u of None \<Rightarrow> progress j | Some v \<Rightarrow> v),
      status := (case u_status u of None \<Rightarrow> status j | Some v \<Rightarrow> v),
      filesProcessed := (case u_filesProcessed u of None \<Rightarrow> filesProcessed j | Some v \<Rightarrow> v),
      totalFiles := (case u_totalFiles u of None \<Rightarrow> totalFiles j | Some v \<Rightarrow> v),
      currentFile := (case u_currentFile u of None \<Rightarrow> currentFile j | Some v \<Rightarrow> v),
      zipPath := (case u_zipPath u of None \<Rightarrow> zipPath j | Some v \<Rightarrow> Some v)\<rparr>"

text \<open>
  The state the handlers share: the tracker's map, the pending \<^verbatim>\<open>setTimeout\<close>
  callbacks with the time they are due, the archive files present in the temp
  directory, and the clock \<^verbatim>\<open>Date.now()\<close> in milliseconds.
\<close>

datatype timer = Delete_job string | Unlink_file string

record world =
  activeJobs :: "string \<rightharpoonup> job"
  timers :: "(nat \<times> timer) list"
  disk :: "string set"
  now :: nat

definition setTimeout :: "timer \<Rightarrow> nat \<Rightarrow> world \<Rightarrow> world" where
  "setTimeout f delay w = w\<lparr>timers := timers w @ [(now w + delay, f)]\<rparr>"

text \<open>
  The two callbacks the code schedules: \<^verbatim>\<open>this.activeJobs.delete(jobId)\<close> and
  \<^verbatim>\<open>fsSync.unlink(zipPath, ...)\<close>. The unlink removes the file when it is there;
  its failure (the file is not there) is only logged.
\<close>

fun fire :: "world \<Rightarrow> timer \<Rightarrow> world" where
  "fire w (Delete_job jobId) = w\<lparr>activeJobs := (activeJobs w)(jobId := None)\<rparr>"
| "fire w (Unlink_file p) = w\<lparr>disk := disk w - {p}\<rparr>"

text \<open>
  Time passes by \<open>d\<close> milliseconds: every callback due by then runs, earliest
  first, and leaves the queue.
\<close>

definition advance :: "nat \<Rightarrow> world \<Rightarrow> world" where
  "advance d w =
     (let t = now w + d;
          due = sort_key fst (filter (\<lambda>(time, f). time \<le> t) (timers w));
          later = filter (\<lambda>(time, f). \<not> time \<le> t) (timers w)
      in foldl fire (w\<lparr>timers := later, now := t\<rparr>) (map snd due))"

subsection \<open>ZipProgressTracker\<close>

text \<open>
  \<^verbatim>\<open>this.emit('progress', job)\<close> has no effect: nothing in the source registers a
  listener on the tracker.
\<close>

definition createJob :: "string \<Rightarrow> string \<Rightarrow> world \<Rightarrow> world" where
  "createJob jobId fp w = w\<lparr>activeJobs := (activeJobs w)(jobId \<mapsto>
     \<lparr>job_id = jobId, folderPath = fp, startTime = now w, progress = Num 0,
      status = Initializing, filesProcessed = 0, totalFiles = 0, currentFile = [],
      error = None, zipPath = None\<rparr>)\<rparr>"

definition updateJob :: "string \<Rightarrow> updates \<Rightarrow> world \<Rightarrow> world" where
  "updateJob jobId u w =
     (case activeJobs w jobId of
        None \<Rightarrow> w
      | Some j \<Rightarrow> w\<lparr>activeJobs := (activeJobs w)(jobId \<mapsto> assign j u)\<rparr>)"

definition completeJob :: "string \<Rightarrow> world \<Rightarrow> world" where
  "completeJob jobId w =
     (case activeJobs w jobId of
        None \<Rightarrow> w
      | Some j \<Rightarrow> setTimeout (Delete_job jobId) 30000
          (w\<lparr>activeJobs := (activeJobs w)(jobId \<mapsto> j\<lparr>progress := Num 100, status := Completed\<rparr>)\<rparr>))"

definition errorJob :: "string \<Rightarrow> string \<Rightarrow> world \<Rightarrow> world" where
  "errorJob jobId message w =
     (case activeJobs w jobId of
        None \<Rightarrow> w
      | Some j \<Rightarrow> setTimeout (Delete_job jobId) 30000
          (w\<lparr>activeJobs := (activeJobs w)(jobId \<mapsto> j\<lparr>status := Error, error := Some message\<rparr>)\<rparr>))"

definition getJob :: "string \<Rightarrow> world \<Rightarrow> job option" where
  "getJob jobId w = activeJobs w jobId"

section \<open>The polling and download endpoints\<close>

datatype response =
    Json_error nat string
  | Json_job job
  | Download string string

text \<open>\<^verbatim>\<open>path.basename\<close> of a path with forward slashes and no trailing slash.\<close>

definition basename :: "string \<Rightarrow> string" where
  "basename p = rev (takeWhile (\<lambda>c. c \<noteq> CHR ''/'') (rev p))"

text \<open>\<^verbatim>\<open>GET /api/zip-progress/:jobId\<close>\<close>

definition zip_progress :: "string \<Rightarrow> world \<Rightarrow> response" where
  "zip_progress jobId w =
     (case getJob jobId w of
        None \<Rightarrow> Json_error 404 ''Job not found''
      | Some j \<Rightarrow> Json_job j)"

text \<open>
  \<^verbatim>\<open>GET /api/download-zip/:jobId\<close>, up to the call of \<^verbatim>\<open>res.download\<close>.
  A job without a \<^verbatim>\<open>zipPath\<close> property reads \<^verbatim>\<open>undefined\<close>, for which
  \<^verbatim>\<open>existsSync\<close> answers false.
\<close>

definition download_zip :: "string \<Rightarrow> world \<Rightarrow> response" where
  "download_zip jobId w =
     (case getJob jobId w of
        None \<Rightarrow> Json_error 404 ''Job not found''
      | Some j \<Rightarrow>
          if status j \<noteq> Completed then Json_error 400 ''Job not completed''
          else (case zipPath j of
                  None \<Rightarrow> Json_error 404 ''ZIP file not found''
                | Some p \<Rightarrow>
                    if p \<notin> disk w then Json_error 404 ''ZIP file not found''
                    else Download p (basename p)))"

text \<open>
  The callback of \<^verbatim>\<open>res.download\<close>, run when the transfer of \<open>p\<close> has ended:
  with an error it only logs, without one it schedules the unlink.
\<close>

definition download_done :: "string option \<Rightarrow> string \<Rightarrow> world \<Rightarrow> world" where
  "download_done err p w =
     (case err of
        Some e \<Rightarrow> w
      | None \<Rightarrow> setTimeout (Unlink_file p) 5000 w)"

section \<open>The file-count pre-pass\<close>

text \<open>
  What \<^verbatim>\<open>countFilesRecursive\<close> can meet at a path: an entry for which
  \<^verbatim>\<open>fs.stat\<close> succeeds and \<^verbatim>\<open>isDirectory()\<close> is false; a directory
  with the names \<^verbatim>\<open>fs.readdir\<close> lists, in that order; a directory whose
  \<^verbatim>\<open>readdir\<close> throws; and an entry whose \<^verbatim>\<open>stat\<close> throws (removed after the
  listing, a dangling link, no permission).
\<close>

datatype fsnode =
    File
  | Dir "(string \<times> fsnode) list"
  | Unreadable_dir
  | Stat_fails

text \<open>
  \<open>count_items\<close> is the \<^verbatim>\<open>for\<close> loop with the local \<^verbatim>\<open>count\<close>. The
  \<^verbatim>\<open>try\<close> encloses the whole loop, so an exception of \<^verbatim>\<open>stat\<close> leaves the
  loop; the empty \<^verbatim>\<open>catch\<close> then falls through to \<^verbatim>\<open>return count\<close>. The
  recursive call never throws: its own \<^verbatim>\<open>try\<close> catches everything.
\<close>

fun countFilesRecursive :: "fsnode \<Rightarrow> nat"
  and count_items :: "(string \<times> fsnode) list \<Rightarrow> nat \<Rightarrow> nat" where
  "countFilesRecursive (Dir items) = count_items items 0"
| "countFilesRecursive File = 0"
| "countFilesRecursive Unreadable_dir = 0"
| "countFilesRecursive Stat_fails = 0"
| "count_items [] count = count"
| "count_items ((item, Stat_fails) # rest) count = count"
| "count_items ((item, File) # rest) count = count_items rest (count + 1)"
| "count_items ((item, Dir sub) # rest) count =
     count_items rest (count + countFilesRecursive (Dir sub))"
| "count_items ((item, Unreadable_dir) # rest) count =
     count_items rest (count + countFilesRecursive Unreadable_dir)"

section \<open>The archival task\<close>

text \<open>The decimal digits of \<^verbatim>\<open>Date.now()\<close> inside a template string.\<close>

definition digit :: "nat \<Rightarrow> char" where
  "digit d = ''0123456789'' ! d"

function decimal :: "nat \<Rightarrow> string" where
  "decimal n = (if n < 10 then [digit n] else decimal (n div 10) @ [digit (n mod 10)])"
  by pat_completeness auto
termination
  by (relation "measure (\<lambda>n. n)") auto

declare decimal.simps [simp del]

text \<open>
  \<^verbatim>\<open>path.join\<close> of two strings on a POSIX host: the non-empty arguments are
  joined with a slash and the result is normalised. \<open>normalizeString\<close> walks the
  segments between slashes with the segments kept so far, last one first: empty
  segments and \<^verbatim>\<open>.\<close> are dropped, \<^verbatim>\<open>..\<close> removes the segment before it, or
  is kept where there is none to remove and the path is relative.
\<close>

fun split_path :: "string \<Rightarrow> string list" where
  "split_path [] = [[]]"
| "split_path (c # cs) =
     (if c = CHR ''/'' then [] # split_path cs
      else (case split_path cs of [] \<Rightarrow> [[c]] | seg # segs \<Rightarrow> (c # seg) # segs))"

fun normalizeString :: "bool \<Rightarrow> string list \<Rightarrow> string list \<Rightarrow> string list" where
  "normalizeString allowAboveRoot res [] = rev res"
| "normalizeString allowAboveRoot res (seg # segs) =
     (if seg = [] \<or> seg = ''.'' then normalizeString allowAboveRoot res segs
      else if seg = ''..'' then
        (case res of
           [] \<Rightarrow> normalizeString allowAboveRoot (if allowAboveRoot then [''..''] else []) segs
         | r # rs \<Rightarrow>
             if r = ''..''
             then normalizeString allowAboveRoot (if allowAboveRoot then ''..'' # res else res) segs
             else normalizeString allowAboveRoot rs segs)
      else normalizeString allowAboveRoot (seg # res) segs)"

fun join_segments :: "string list \<Rightarrow> string" where
  "join_segments [] = []"
| "join_segments [seg] = seg"
| "join_segments (seg # segs) = seg @ ''/'' @ join_segments segs"

definition normalize_path :: "string \<Rightarrow> string" where
  "normalize_path p =
     (if p = [] then ''.''
      else
        let isAbsolute = (hd p = CHR ''/'');
            trailingSeparator = (last p = CHR ''/'');
            s = join_segments (normalizeString (\<not> isAbsolute) [] (split_path p));
            s1 = (if s = [] \<and> \<not> isAbsolute then ''.'' else s);
            s2 = (if s1 \<noteq> [] \<and> trailingSeparator then s1 @ ''/'' else s1)
        in if isAbsolute then CHR ''/'' # s2 else s2)"

definition path_join :: "string \<Rightarrow> string \<Rightarrow> string" where
  "path_join a b =
     (if a = [] \<and> b = [] then ''.''
      else normalize_path (if a = [] then b else if b = [] then a else a @ ''/'' @ b))"

text \<open>
  \<^verbatim>\<open>POST /api/start-zip/:foldername\<close> after path validation. \<open>folder\<close> is what
  lies at \<open>fp\<close> (\<open>None\<close>: nothing), \<open>rnd\<close> the nine characters taken from
  \<^verbatim>\<open>Math.random().toString(36)\<close>. The answer carries the job id.
\<close>

definition new_job_id :: "nat \<Rightarrow> string \<Rightarrow> string" where
  "new_job_id t rnd = ''zip_'' @ decimal t @ ''_'' @ rnd"

fun start_zip :: "string \<Rightarrow> fsnode option \<Rightarrow> string \<Rightarrow> world \<Rightarrow> (nat \<times> string) + string \<times> world" where
  "start_zip fp None rnd w = Inl (404, ''Folder not found'')"
| "start_zip fp (Some Stat_fails) rnd w = Inl (404, ''Folder not found'')"
| "start_zip fp (Some File) rnd w = Inl (400, ''Path is not a directory'')"
| "start_zip fp (Some d) rnd w =
     (let jobId = new_job_id (now w) rnd in Inr (jobId, createJob jobId fp w))"

text \<open>
  The variables the callbacks of one \<^verbatim>\<open>createZipWithProgress\<close> call close
  over.
\<close>

record task =
  t_jobId :: string
  t_zipPath :: string
  t_totalFiles :: nat
  t_filesProcessed :: nat

definition zip_path :: "string \<Rightarrow> string \<Rightarrow> nat \<Rightarrow> string" where
  "zip_path tempDir foldername t = path_join tempDir (foldername @ ''_'' @ decimal t @ ''.zip'')"

text \<open>
  \<^verbatim>\<open>createZipWithProgress\<close> up to the count. \<open>mkdir_error\<close> is the message of
  the exception \<^verbatim>\<open>fs.mkdir\<close> throws, if it does: the \<^verbatim>\<open>catch\<close> block then
  ends the task.
\<close>

definition createZipWithProgress_setup ::
    "string \<Rightarrow> string \<Rightarrow> string \<Rightarrow> string option \<Rightarrow> world \<Rightarrow> task option \<times> world" where
  "createZipWithProgress_setup tempDir jobId foldername mkdir_error w =
     (let zipPath = zip_path tempDir foldername (now w) in
      case mkdir_error of
        Some message \<Rightarrow> (None, errorJob jobId message w)
      | None \<Rightarrow>
          (Some \<lparr>t_jobId = jobId, t_zipPath = zipPath, t_totalFiles = 0, t_filesProcessed = 0\<rparr>,
           updateJob jobId
             (no_updates\<lparr>u_status := Some Counting, u_currentFile := Some ''Counting files...''\<rparr>) w))"

text \<open>The count has resolved: \<^verbatim>\<open>updateJob(jobId, { totalFiles, status: 'zipping' })\<close>.\<close>

definition createZipWithProgress_counted :: "task \<Rightarrow> fsnode \<Rightarrow> world \<Rightarrow> task \<times> world" where
  "createZipWithProgress_counted t folder w =
     (let totalFiles = countFilesRecursive folder in
      (t\<lparr>t_totalFiles := totalFiles, t_filesProcessed := 0\<rparr>,
       updateJob (t_jobId t) (no_updates\<lparr>u_totalFiles := Some totalFiles, u_status := Some Zipping\<rparr>) w))"

text \<open>
  JavaScript numbers are IEEE doubles. A non-negative double is written here as a
  fraction \<open>n / d\<close> of naturals. \<open>to_double a b\<close> is the double nearest to the
  quotient \<open>a / b\<close>, ties to the even significand: the quotient is scaled by powers
  of two into the range from \<^verbatim>\<open>2^52\<close> (4503599627370496) up to \<^verbatim>\<open>2^53\<close>
  (9007199254740992), rounded to an integer there, and scaled back. The counters are
  integers below \<^verbatim>\<open>2^53\<close>, which are doubles themselves, and for such operands
  the quotient and the product by 100 stay clear of subnormal numbers and of
  overflow, which are therefore not modelled.
\<close>

type_synonym double = "nat \<times> nat"

definition nearest_even :: "nat \<Rightarrow> nat \<Rightarrow> nat" where
  "nearest_even a b =
     (let q = a div b; r = a mod b
      in if 2 * r < b then q else if b < 2 * r then q + 1 else if even q then q else q + 1)"

function scale_up :: "nat \<Rightarrow> nat \<Rightarrow> nat \<Rightarrow> nat \<times> nat" where
  "scale_up a b s =
     (if 0 < a \<and> a < 4503599627370496 * b then scale_up (2 * a) b (2 * s) else (a, s))"
  by pat_completeness auto
termination
  by (relation "measure (\<lambda>(a, b, s). 4503599627370496 * b - a)") auto

function scale_down :: "nat \<Rightarrow> nat \<Rightarrow> nat \<Rightarrow> nat \<times> nat" where
  "scale_down a b s =
     (if 0 < b \<and> 9007199254740992 * b \<le> a then scale_down a (2 * b) (2 * s) else (b, s))"
  by pat_completeness auto
termination
  by (relation "measure (\<lambda>(a, b, s). a + 1 - 9007199254740992 * b)") auto

declare scale_up.simps [simp del] scale_down.simps [simp del]

definition to_double :: "nat \<Rightarrow> nat \<Rightarrow> double" where
  "to_double a b =
     (let (a', su) = scale_up a b 1;
          (b', sd) = scale_down a' b 1
      in (nearest_even a' b' * sd, su))"

text \<open>
  \<^verbatim>\<open>Math.round\<close> gives the nearest integer, the upper one at a half: the floor of
  \<open>x + 1/2\<close>.
\<close>

definition math_round :: "double \<Rightarrow> nat" where
  "math_round x = (2 * fst x + snd x) div (2 * snd x)"

text \<open>
  \<^verbatim>\<open>Math.round((p / t) * 100)\<close> for positive \<open>t\<close>: the division rounds to a
  double, the multiplication by 100 rounds again, and \<^verbatim>\<open>Math.round\<close> is exact.
\<close>

definition js_percent :: "nat \<Rightarrow> nat \<Rightarrow> nat" where
  "js_percent p t = math_round (case to_double p t of (n, d) \<Rightarrow> to_double (n * 100) d)"

text \<open>
  Division by zero does not throw in JavaScript: \<^verbatim>\<open>p / 0\<close> is \<^verbatim>\<open>Infinity\<close>
  for positive \<open>p\<close> and \<^verbatim>\<open>0 / 0\<close> is \<^verbatim>\<open>NaN\<close>, and both pass through the
  multiplication and \<^verbatim>\<open>Math.round\<close>.
\<close>

definition round_percent :: "nat \<Rightarrow> nat \<Rightarrow> jsnum" where
  "round_percent p t =
     (if t = 0 then (if p = 0 then NaN else Infinity)
      else Num (int (js_percent p t)))"

text \<open>
  What happens once the handlers are registered: the write stream opens its file,
  the archiver reports an entry, the output closes, either stream reports an error,
  \<^verbatim>\<open>archive.finalize()\<close> rejects into the \<^verbatim>\<open>catch\<close> block, or time passes.
  Which of these the archiver library and the streams produce, and in what order, is
  not decided by this source.
\<close>

datatype event =
    Output_open
  | Entry string
  | Output_close
  | Archive_error string
  | Output_error string
  | Finalize_rejected string
  | Elapse nat

fun step :: "task \<times> world \<Rightarrow> event \<Rightarrow> task \<times> world" where
  "step (t, w) Output_open = (t, w\<lparr>disk := insert (t_zipPath t) (disk w)\<rparr>)"
| "step (t, w) (Entry name) =
     (let filesProcessed = t_filesProcessed t + 1;
          progress = round_percent filesProcessed (t_totalFiles t)
      in (t\<lparr>t_filesProcessed := filesProcessed\<rparr>,
          updateJob (t_jobId t)
            (no_updates\<lparr>u_progress := Some progress, u_filesProcessed := Some filesProcessed,
               u_currentFile := Some name, u_status := Some Zipping\<rparr>) w))"
| "step (t, w) Output_close =
     (t, updateJob (t_jobId t)
           (no_updates\<lparr>u_zipPath := Some (t_zipPath t), u_status := Some Completed,
              u_progress := Some (Num 100), u_currentFile := Some ''Completed''\<rparr>) w)"
| "step (t, w) (Archive_error message) = (t, errorJob (t_jobId t) message w)"
| "step (t, w) (Output_error message) = (t, errorJob (t_jobId t) message w)"
| "step (t, w) (Finalize_rejected message) = (t, errorJob (t_jobId t) message w)"
| "step (t, w) (Elapse d) = (t, advance d w)"

definition run :: "task \<times> world \<Rightarrow> event list \<Rightarrow> task \<times> world" where
  "run tw evs = foldl step tw evs"

text \<open>
  One job from the start request on: the job is created, the temp directory is
  there, the count of \<open>folder\<close> resolves, and then \<open>evs\<close> happen.
\<close>

definition zip_job ::
    "string \<Rightarrow> string \<Rightarrow> string \<Rightarrow> string \<Rightarrow> fsnode \<Rightarrow> event list \<Rightarrow> world \<Rightarrow> task \<times> world" where
  "zip_job tempDir jobId fp foldername folder evs w =
     (case createZipWithProgress_setup tempDir jobId foldername None (createJob jobId fp w) of
        (None, w') \<Rightarrow> (\<lparr>t_jobId = jobId, t_zipPath = [], t_totalFiles = 0, t_filesProcessed = 0\<rparr>, w')
      | (Some t, w') \<Rightarrow> run (createZipWithProgress_counted t folder w') evs)"

definition empty_world :: "nat \<Rightarrow> world" where
  "empty_world t = \<lparr>activeJobs = Map.empty, timers = [], disk = {}, now = t\<rparr>"

text \<open>The callbacks that are due by time \<open>t\<close>.\<close>

definition due_by :: "nat \<Rightarrow> world \<Rightarrow> timer set" where
  "due_by t w = set (map snd (filter (\<lambda>(time, f). time \<le> t) (timers w)))"

subsection \<open>A run to refer to\<close>

text \<open>
  The folder of the specification's example, three files and no subfolder, archived
  by a job started at clock 1000 on a server with nothing else going on.
\<close>

definition photos :: fsnode where
  "photos = Dir [(''a.txt'', File), (''b.txt'', File), (''c.txt'', File)]"

definition photos_job :: "fsnode \<Rightarrow> event list \<Rightarrow> world" where
  "photos_job folder evs =
     snd (zip_job ''/srv/temp'' ''zip_1000_k3x9q2m1a'' ''/data/photos'' ''photos'' folder evs
            (empty_world 1000))"

subsection \<open>Reference notions\<close>

text \<open>
  The count as the specification words it: every entry that is not a directory, at
  every depth, where an unreadable subpath takes out exactly its own subtree and the
  walk goes on with the entries after it.
\<close>

fun spec_countFiles :: "fsnode \<Rightarrow> nat"
  and spec_count_items :: "(string \<times> fsnode) list \<Rightarrow> nat" where
  "spec_countFiles (Dir items) = spec_count_items items"
| "spec_countFiles File = 0"
| "spec_countFiles Unreadable_dir = 0"
| "spec_countFiles Stat_fails = 0"
| "spec_count_items [] = 0"
| "spec_count_items ((item, Stat_fails) # rest) = spec_count_items rest"
| "spec_count_items ((item, File) # rest) = 1 + spec_count_items rest"
| "spec_count_items ((item, Dir sub) # rest) = spec_countFiles (Dir sub) + spec_count_items rest"
| "spec_count_items ((item, Unreadable_dir) # rest) = spec_count_items rest"

text \<open>No \<^verbatim>\<open>fs.stat\<close> call of the walk throws.\<close>

fun stat_ok :: "fsnode \<Rightarrow> bool"
  and stats_ok :: "(string \<times> fsnode) list \<Rightarrow> bool" where
  "stat_ok (Dir items) = stats_ok items"
| "stat_ok File = True"
| "stat_ok Unreadable_dir = True"
| "stat_ok Stat_fails = True"
| "stats_ok [] = True"
| "stats_ok ((item, Stat_fails) # rest) = False"
| "stats_ok ((item, File) # rest) = stats_ok rest"
| "stats_ok ((item, Dir sub) # rest) = (stat_ok (Dir sub) \<and> stats_ok rest)"
| "stats_ok ((item, Unreadable_dir) # rest) = stats_ok rest"

text \<open>
  The percentage as the specification words it, in exact arithmetic:
  \<open>100 * p / t\<close> rounded to the nearest integer, halves up.
\<close>

definition spec_round_percent :: "nat \<Rightarrow> nat \<Rightarrow> nat" where
  "spec_round_percent p t = (200 * p + t) div (2 * t)"

fun is_entry :: "event \<Rightarrow> bool" where
  "is_entry (Entry name) = True"
| "is_entry ev = False"

text \<open>
  The job record agrees with the variables its task closes over, and its
  \<^verbatim>\<open>progress\<close> with its status.
\<close>

fun consistent :: "task \<times> world \<Rightarrow> bool" where
  "consistent (t, w) =
     (case activeJobs w (t_jobId t) of
        None \<Rightarrow> True
      | Some j \<Rightarrow>
          totalFiles j = t_totalFiles t \<and> filesProcessed j = t_filesProcessed t
          \<and> status j \<noteq> Initializing \<and> status j \<noteq> Counting
          \<and> (if status j = Zipping \<and> 0 < totalFiles j
              then progress j = round_percent (filesProcessed j) (totalFiles j)
              else status j = Completed \<longrightarrow> progress j = Num 100))"

section \<open>Timers\<close>

lemma fire_timers [simp]: "timers (fire w f) = timers w"
  by (cases f) simp_all

lemma fire_now [simp]: "now (fire w f) = now w"
  by (cases f) simp_all

lemma foldl_fire_timers [simp]: "timers (foldl fire w fs) = timers w"
  by (induction fs arbitrary: w) simp_all

lemma foldl_fire_now [simp]: "now (foldl fire w fs) = now w"
  by (induction fs arbitrary: w) simp_all

lemma foldl_fire_disk: "disk (foldl fire w fs) = disk w - {p. Unlink_file p \<in> set fs}"
proof (induction fs arbitrary: w)
  case Nil
  then show ?case by simp
next
  case (Cons f fs)
  then show ?case by (cases f) auto
qed

lemma foldl_fire_jobs:
  "activeJobs (foldl fire w fs) jobId =
     (if Delete_job jobId \<in> set fs then None else activeJobs w jobId)"
proof (induction fs arbitrary: w)
  case Nil
  then show ?case by simp
next
  case (Cons f fs)
  then show ?case by (cases f) auto
qed

lemma set_due:
  "set (map snd (sort_key fst (filter (\<lambda>(time, f). time \<le> t) (timers w)))) = due_by t w"
  by (simp add: due_by_def)

lemma due_by_iff: "f \<in> due_by t w \<longleftrightarrow> (\<exists>time. time \<le> t \<and> (time, f) \<in> set (timers w))"
  by (force simp: due_by_def)

lemma advance_disk: "disk (advance d w) = disk w - {p. Unlink_file p \<in> due_by (now w + d) w}"
  unfolding advance_def Let_def foldl_fire_disk set_due by simp

lemma advance_jobs:
  "activeJobs (advance d w) jobId =
     (if Delete_job jobId \<in> due_by (now w + d) w then None else activeJobs w jobId)"
  unfolding advance_def Let_def foldl_fire_jobs set_due by simp

lemma advance_now [simp]: "now (advance d w) = now w + d"
  by (simp add: advance_def Let_def)

lemma advance_timers:
  "timers (advance d w) = filter (\<lambda>(time, f). \<not> time \<le> now w + d) (timers w)"
  by (simp add: advance_def Let_def)

lemma due_by_setTimeout:
  "due_by t (setTimeout f delay w) = due_by t w \<union> (if now w + delay \<le> t then {f} else {})"
  by (auto simp: due_by_def setTimeout_def)

lemma setTimeout_fields [simp]:
  "activeJobs (setTimeout f delay w) = activeJobs w"
  "disk (setTimeout f delay w) = disk w"
  "now (setTimeout f delay w) = now w"
  by (simp_all add: setTimeout_def)

lemma due_by_activeJobs_update [simp]: "due_by t (w\<lparr>activeJobs := x\<rparr>) = due_by t w"
  by (simp add: due_by_def)

section \<open>Double arithmetic\<close>

lemma scale_up_more:
  "0 < a \<Longrightarrow> a < 4503599627370496 * b \<Longrightarrow> scale_up a b s = scale_up (2 * a) b (2 * s)"
  by (subst scale_up.simps) simp

lemma scale_up_done: "\<not> (0 < a \<and> a < 4503599627370496 * b) \<Longrightarrow> scale_up a b s = (a, s)"
  by (subst scale_up.simps) auto

lemma scale_down_more:
  "0 < b \<Longrightarrow> 9007199254740992 * b \<le> a \<Longrightarrow> scale_down a b s = scale_down a (2 * b) (2 * s)"
  by (subst scale_down.simps) simp

lemma scale_down_done: "\<not> (0 < b \<and> 9007199254740992 * b \<le> a) \<Longrightarrow> scale_down a b s = (b, s)"
  by (subst scale_down.simps) auto

lemmas double_eval = js_percent_def math_round_def to_double_def nearest_even_def
  scale_up_more scale_up_done scale_down_more scale_down_done Let_def


lemma scale_up_spec:
  "0 < a \<Longrightarrow> 0 < b \<Longrightarrow>
     \<exists>k>0. scale_up a b s = (a * k, s * k) \<and> 4503599627370496 * b \<le> a * k"
proof (induction a b s rule: scale_up.induct)
  case (1 a b s)
  show ?case
  proof (cases "a < 4503599627370496 * b")
    case True
    with "1.prems" "1.IH" obtain k where k: "0 < k"
      "scale_up (2 * a) b (2 * s) = (2 * a * k, 2 * s * k)" "4503599627370496 * b \<le> 2 * a * k"
      by auto
    have "scale_up a b s = (a * (2 * k), s * (2 * k))"
      using True "1.prems" k(2) by (simp add: scale_up_more mult_ac)
    moreover have "4503599627370496 * b \<le> a * (2 * k)"
      using k(3) by (simp add: mult_ac)
    ultimately show ?thesis
      using k(1) by (intro exI [of _ "2 * k"]) simp
  next
    case False
    then have "scale_up a b s = (a * 1, s * 1)" "4503599627370496 * b \<le> a * 1"
      by (simp_all add: scale_up_done)
    then show ?thesis
      by (intro exI [of _ 1]) simp
  qed
qed

lemma scale_down_spec:
  "0 < b \<Longrightarrow> 4503599627370496 * b \<le> a \<Longrightarrow>
     \<exists>k>0. scale_down a b s = (b * k, s * k) \<and> a < 9007199254740992 * (b * k)
        \<and> 4503599627370496 * (b * k) \<le> a"
proof (induction a b s rule: scale_down.induct)
  case (1 a b s)
  show ?case
  proof (cases "9007199254740992 * b \<le> a")
    case True
    with "1.prems" "1.IH" obtain k where k: "0 < k"
      "scale_down a (2 * b) (2 * s) = (2 * b * k, 2 * s * k)"
      "a < 9007199254740992 * (2 * b * k)" "4503599627370496 * (2 * b * k) \<le> a"
      by auto
    have "scale_down a b s = (b * (2 * k), s * (2 * k))"
      using True "1.prems" k(2) by (simp add: scale_down_more mult_ac)
    moreover have "a < 9007199254740992 * (b * (2 * k))" "4503599627370496 * (b * (2 * k)) \<le> a"
      using k(3,4) by (simp_all add: mult_ac)
    ultimately show ?thesis
      using k(1) by (intro exI [of _ "2 * k"]) simp
  next
    case False
    with "1.prems" have "scale_down a b s = (b * 1, s * 1)" "a < 9007199254740992 * (b * 1)"
      "4503599627370496 * (b * 1) \<le> a"
      by (simp_all add: scale_down_done)
    then show ?thesis
      by (intro exI [of _ 1]) simp
  qed
qed

lemma nearest_even_close:
  assumes "0 < b"
  shows "2 * a \<le> 2 * (nearest_even a b * b) + b" and "2 * (nearest_even a b * b) \<le> 2 * a + b"
proof -
  define q r c where "q = a div b" and "r = a mod b" and "c = q * b"
  have a: "a = c + r"
    by (simp add: q_def r_def c_def)
  have r: "r < b"
    using assms by (simp add: r_def)
  have n: "nearest_even a b * b = (if 2 * r < b then c else if b < 2 * r then c + b
      else if even q then c else c + b)"
    by (simp add: nearest_even_def Let_def q_def [symmetric] r_def [symmetric] c_def algebra_simps)
  show "2 * a \<le> 2 * (nearest_even a b * b) + b"
    unfolding n using a r by (simp split: if_splits)
  show "2 * (nearest_even a b * b) \<le> 2 * a + b"
    unfolding n using a r by (simp split: if_splits)
qed

lemma to_double_close:
  assumes "0 < a" and "0 < b" and "to_double a b = (n, d)"
  shows "0 < d" and "0 < n"
    and "\<bar>real n / real d - real a / real b\<bar> \<le> (real a / real b) / 9007199254740992"
proof -
  from scale_up_spec [OF assms(1,2), of 1] obtain k1 where k1: "0 < k1"
    "scale_up a b 1 = (a * k1, k1)" "4503599627370496 * b \<le> a * k1"
    by auto
  from scale_down_spec [OF assms(2) k1(3), of 1] obtain k2 where k2: "0 < k2"
    "scale_down (a * k1) b 1 = (b * k2, k2)" "a * k1 < 9007199254740992 * (b * k2)"
    "4503599627370496 * (b * k2) \<le> a * k1"
    by auto
  define m where "m = nearest_even (a * k1) (b * k2)"
  have nd: "n = m * k2" "d = k1"
    using assms(3) k1(2) k2(2) by (auto simp: to_double_def m_def)
  have B: "0 < b * k2"
    using assms(2) k2(1) by simp
  note c = nearest_even_close [OF B, of "a * k1", folded m_def]
  show "0 < d"
    using nd k1(1) by simp
  have "0 < m"
  proof (rule ccontr)
    assume "\<not> 0 < m"
    then have "m = 0" by simp
    with c(1) have "2 * (a * k1) \<le> b * k2" by simp
    with k2(4) B show False by simp
  qed
  then show "0 < n"
    using nd k2(1) by simp
  define A B' M K1 K2 where "A = real (a * k1)" and "B' = real (b * k2)" and "M = real m"
    and "K1 = real k1" and "K2 = real k2"
  have pos: "0 < K1" "0 < K2" "0 < real b" "0 < real a" "0 < B'"
    using k1(1) k2(1) assms(1,2) B by (simp_all add: K1_def K2_def B'_def)
  have AB: "A = real a * K1" "B' = real b * K2"
    by (simp_all add: A_def B'_def K1_def K2_def)
  have c1: "2 * A \<le> 2 * (M * B') + B'"
  proof -
    have "real (2 * (a * k1)) \<le> real (2 * (m * (b * k2)) + b * k2)"
      using c(1) by (rule iffD2 [OF of_nat_le_iff])
    then show ?thesis
      by (simp add: A_def B'_def M_def)
  qed
  have c2: "2 * (M * B') \<le> 2 * A + B'"
  proof -
    have "real (2 * (m * (b * k2))) \<le> real (2 * (a * k1) + b * k2)"
      using c(2) by (rule iffD2 [OF of_nat_le_iff])
    then show ?thesis
      by (simp add: A_def B'_def M_def)
  qed
  have c3: "4503599627370496 * B' \<le> A"
  proof -
    have "real (4503599627370496 * (b * k2)) \<le> real (a * k1)"
      using k2(4) by (rule iffD2 [OF of_nat_le_iff])
    then show ?thesis
      by (simp add: A_def B'_def)
  qed
  have e: "real n / real d - real a / real b = (M * B' - A) / (K1 * real b)"
    using pos by (simp add: nd AB M_def K1_def K2_def field_simps)
  have "\<bar>M * B' - A\<bar> \<le> B' / 2"
    using c1 c2 by linarith
  also have "\<dots> \<le> A / 9007199254740992"
    using c3 by simp
  finally have h: "\<bar>M * B' - A\<bar> \<le> A / 9007199254740992" .
  have z: "0 \<le> K1 * real b"
    using pos by simp
  have "\<bar>real n / real d - real a / real b\<bar> = \<bar>M * B' - A\<bar> / (K1 * real b)"
    using z by (simp add: e del: of_nat_mult)
  also have "\<dots> \<le> (A / 9007199254740992) / (K1 * real b)"
    by (rule divide_right_mono [OF h z])
  also have "\<dots> = (real a / real b) / 9007199254740992"
    using pos by (simp add: AB)
  finally show "\<bar>real n / real d - real a / real b\<bar> \<le> (real a / real b) / 9007199254740992" .
qed


lemma math_round_floor:
  assumes "0 < d"
  shows "int (math_round (n, d)) = \<lfloor>real n / real d + 1 / 2\<rfloor>"
proof -
  have "real (2 * n + d) / real (2 * d) = real n / real d + 1 / 2"
    using assms by (simp add: field_simps)
  moreover have "\<lfloor>real (2 * n + d) / real (2 * d)\<rfloor> = int ((2 * n + d) div (2 * d))"
    by (rule floor_divide_of_nat_eq)
  ultimately show ?thesis
    by (simp add: math_round_def)
qed

lemma spec_round_percent_floor:
  assumes "0 < t"
  shows "int (spec_round_percent p t) = \<lfloor>100 * real p / real t + 1 / 2\<rfloor>"
proof -
  have "real (200 * p + t) / real (2 * t) = 100 * real p / real t + 1 / 2"
    using assms by (simp add: field_simps)
  moreover have "\<lfloor>real (200 * p + t) / real (2 * t)\<rfloor> = int ((200 * p + t) div (2 * t))"
    by (rule floor_divide_of_nat_eq)
  ultimately show ?thesis
    by (simp add: spec_round_percent_def)
qed

lemma js_percent_zero: "0 < t \<Longrightarrow> js_percent 0 t = 0"
  by (simp add: double_eval)

lemma js_percent_close:
  assumes "0 < p" and "0 < t" and "p \<le> 8796093022208"
  obtains y where "int (js_percent p t) = \<lfloor>y + 1 / 2\<rfloor>"
    and "\<bar>y - 100 * real p / real t\<bar> < 1 / (2 * real t)"
proof -
  obtain n1 d1 where r1: "to_double p t = (n1, d1)"
    by (cases "to_double p t")
  note c1 = to_double_close [OF assms(1,2) r1]
  obtain n2 d2 where r2: "to_double (n1 * 100) d1 = (n2, d2)"
    by (cases "to_double (n1 * 100) d1")
  have "0 < n1 * 100"
    using c1(2) by simp
  note c2 = to_double_close [OF this c1(1) r2]
  define q x0 y where "q = real n1 / real d1" and "x0 = real p / real t" and "y = real n2 / real d2"
  have x0: "0 < x0"
    using assms(1,2) by (simp add: x0_def)
  have e1: "\<bar>q - x0\<bar> \<le> x0 / 9007199254740992"
    using c1(3) by (simp add: q_def x0_def)
  have eq: "real (n1 * 100) / real d1 = 100 * q"
    by (simp add: q_def)
  have e2: "\<bar>y - 100 * q\<bar> \<le> (100 * q) / 9007199254740992"
    using c2(3) unfolding eq y_def [symmetric] .
  have "q \<le> 2 * x0"
    using e1 x0 by linarith
  with e1 e2 x0 have "\<bar>y - 100 * x0\<bar> \<le> 300 * x0 / 9007199254740992"
    by linarith
  also have "\<dots> < 1 / (2 * real t)"
  proof -
    have "real p \<le> 8796093022208"
      using assms(3) by (metis of_nat_le_iff of_nat_numeral)
    then have "300 * real p * 2 < 9007199254740992"
      by linarith
    then show ?thesis
      using assms(2) by (simp add: x0_def field_simps)
  qed
  finally have "\<bar>y - 100 * real p / real t\<bar> < 1 / (2 * real t)"
    by (simp add: x0_def)
  moreover have "int (js_percent p t) = \<lfloor>y + 1 / 2\<rfloor>"
    using math_round_floor [OF c2(1), of n2] by (simp add: js_percent_def r1 r2 y_def)
  ultimately show ?thesis
    by (rule that [rotated])
qed

lemma js_percent_rounding:
  assumes "0 < t" and "p \<le> 8796093022208"
  shows "js_percent p t = spec_round_percent p t
     \<or> ((200 * p + t) mod (2 * t) = 0 \<and> js_percent p t + 1 = spec_round_percent p t)"
proof (cases "p = 0")
  case True
  with assms(1) show ?thesis
    by (simp add: js_percent_zero spec_round_percent_def)
next
  case False
  then have p: "0 < p" by simp
  obtain y where y: "int (js_percent p t) = \<lfloor>y + 1 / 2\<rfloor>"
    and close: "\<bar>y - 100 * real p / real t\<bar> < 1 / (2 * real t)"
    by (rule js_percent_close [OF p assms])
  define S f where "S = (200 * p + t) div (2 * t)" and "f = (200 * p + t) mod (2 * t)"
  have split: "200 * p + t = S * (2 * t) + f"
    unfolding S_def f_def by (rule div_mult_mod_eq [symmetric])
  have f: "f < 2 * t"
    using assms(1) by (simp add: f_def)
  have tr: "0 < real t"
    using assms(1) by simp
  have "real (200 * p + t) = real (S * (2 * t) + f)"
    by (simp only: split)
  then have "200 * real p + real t = real S * (2 * real t) + real f"
    by simp
  then have x: "100 * real p / real t + 1 / 2 = real S + real f / (2 * real t)"
    using tr by (simp add: field_simps)
  have small: "1 / (2 * real t) \<le> 1 / 2"
    using assms(1) by (simp add: field_simps)
  show ?thesis
  proof (cases "f = 0")
    case True
    with x have "100 * real p / real t + 1 / 2 = real S"
      by simp
    with close small have lo: "real S - 1 < y + 1 / 2" and hi: "y + 1 / 2 < real S + 1"
      by linarith+
    from lo have "int S - 1 \<le> \<lfloor>y + 1 / 2\<rfloor>"
      by (simp add: le_floor_iff)
    moreover from hi have "\<lfloor>y + 1 / 2\<rfloor> \<le> int S"
      by (simp add: floor_le_iff)
    ultimately have "int (js_percent p t) = int S \<or> int (js_percent p t) + 1 = int S"
      unfolding y by linarith
    then have "js_percent p t = S \<or> js_percent p t + 1 = S"
      by linarith
    with True show ?thesis
      by (simp add: spec_round_percent_def S_def f_def)
  next
    case False
    then have "1 \<le> real f" "real f \<le> 2 * real t - 1"
      using f by (simp_all add: Suc_leI)
    then have "1 / (2 * real t) \<le> real f / (2 * real t)"
      and "real f / (2 * real t) \<le> 1 - 1 / (2 * real t)"
      using tr by (simp_all add: field_simps)
    with x close have lo: "real S < y + 1 / 2" and hi: "y + 1 / 2 < real S + 1"
      by linarith+
    then have "\<lfloor>y + 1 / 2\<rfloor> = int S"
      by (simp add: floor_eq_iff)
    with y have "js_percent p t = S"
      by simp
    then show ?thesis
      by (simp add: spec_round_percent_def S_def)
  qed
qed


lemma round_percent_rounding:
  assumes "0 < t" and "p \<le> 8796093022208"
  shows "round_percent p t = Num (int (spec_round_percent p t))
     \<or> ((200 * p + t) mod (2 * t) = 0
          \<and> round_percent p t = Num (int (spec_round_percent p t) - 1))"
proof -
  from js_percent_rounding [OF assms] show ?thesis
  proof
    assume "js_percent p t = spec_round_percent p t"
    with assms(1) show ?thesis
      by (simp add: round_percent_def)
  next
    assume a: "(200 * p + t) mod (2 * t) = 0 \<and> js_percent p t + 1 = spec_round_percent p t"
    then have "int (js_percent p t) = int (spec_round_percent p t) - 1"
      by linarith
    with a assms(1) show ?thesis
      by (simp add: round_percent_def)
  qed
qed

lemma round_percent_zero: "0 < t \<Longrightarrow> round_percent 0 t = Num 0"
  by (simp add: round_percent_def js_percent_zero)

lemma round_percent_values:
  "round_percent 1 3 = Num 33" "round_percent 2 3 = Num 67" "round_percent 3 3 = Num 100"
  "round_percent 1 1 = Num 100" "round_percent 2 1 = Num 200" "round_percent 23 40 = Num 57"
  by (simp_all add: round_percent_def double_eval)

lemmas round_percent_values_Suc =
  round_percent_values(1-5) [unfolded numeral_2_eq_2 numeral_3_eq_3 One_nat_def]

section \<open>Evaluating concrete runs\<close>

lemma decimal_small: "n < 10 \<Longrightarrow> decimal n = [digit n]"
  by (simp add: decimal.simps)

lemma decimal_step: "10 \<le> n \<Longrightarrow> decimal n = decimal (n div 10) @ [digit (n mod 10)]"
  by (subst decimal.simps) simp

lemma digit_simps:
  "digit 0 = CHR ''0''" "digit (Suc 0) = CHR ''1''" "digit 1 = CHR ''1''"
  "digit 2 = CHR ''2''" "digit 3 = CHR ''3''"
  "digit 4 = CHR ''4''" "digit 5 = CHR ''5''" "digit 6 = CHR ''6''" "digit 7 = CHR ''7''"
  "digit 8 = CHR ''8''" "digit 9 = CHR ''9''"
  by (simp_all add: digit_def eval_nat_numeral)

lemmas path_eval = zip_path_def path_join_def normalize_path_def Let_def decimal_small decimal_step digit_simps

lemma zip_path_photos:
  "zip_path ''/srv/temp'' ''photos'' 1000 = ''/srv/temp/photos_1000.zip''"
  "zip_path ''/srv/temp'' ''photos'' 1700000000000 = ''/srv/temp/photos_1700000000000.zip''"
  by (simp_all add: path_eval)

text \<open>A folder name that climbs out of the temp directory takes the archive with it.\<close>

lemma zip_path_dotdot: "zip_path ''/srv/temp'' ''../other'' 1000 = ''/srv/other_1000.zip''"
  by (simp add: path_eval)

lemma zip_job_unfold:
  "zip_job tempDir jobId fp foldername folder evs w =
     run (createZipWithProgress_counted
            \<lparr>t_jobId = jobId, t_zipPath = zip_path tempDir foldername (now w),
               t_totalFiles = 0, t_filesProcessed = 0\<rparr>
            folder
            (updateJob jobId
               (no_updates\<lparr>u_status := Some Counting, u_currentFile := Some ''Counting files...''\<rparr>)
               (createJob jobId fp w))) evs"
  by (simp add: zip_job_def createZipWithProgress_setup_def createJob_def)

lemmas run_defs =
  photos_job_def photos_def zip_job_unfold
  createZipWithProgress_counted_def run_def updateJob_def errorJob_def createJob_def
  empty_world_def assign_def no_updates_def round_percent_values round_percent_values_Suc
  zip_path_photos
  setTimeout_def advance_def

lemmas endpoint_defs = download_zip_def zip_progress_def getJob_def basename_def download_done_def

section \<open>Fetching the artifact\<close>

text \<open>
  C7: \<^verbatim>\<open>GET /api/download-zip/:jobId\<close> answers 404 "Job not found" for every
  identifier the registry does not hold, 400 "Job not completed" for every job it
  holds whose status is not completed, and starts a download only for a completed
  job whose recorded archive file exists, and for each of those. An evicted job is an identifier the
  registry does not hold: right after the eviction callback, or after the time at
  which it is due, the answer is the one given where no job was ever created.
\<close>

theorem download_zip_cases:
  "(getJob jobId w = None \<longrightarrow> download_zip jobId w = Json_error 404 ''Job not found'')
   \<and> (\<forall>j. getJob jobId w = Some j \<and> status j \<noteq> Completed \<longrightarrow>
          download_zip jobId w = Json_error 400 ''Job not completed'')
   \<and> (\<forall>p name. download_zip jobId w = Download p name \<longrightarrow>
          (\<exists>j. getJob jobId w = Some j \<and> status j = Completed \<and> zipPath j = Some p \<and> p \<in> disk w))
   \<and> (\<forall>j p. getJob jobId w = Some j \<and> status j = Completed \<and> zipPath j = Some p \<and> p \<in> disk w
          \<longrightarrow> download_zip jobId w = Download p (basename p))
   \<and> download_zip jobId (fire w (Delete_job jobId)) = Json_error 404 ''Job not found''
   \<and> (Delete_job jobId \<in> due_by (now w + d) w \<longrightarrow>
          download_zip jobId (advance d w) = Json_error 404 ''Job not found'')
   \<and> download_zip jobId (empty_world t) = Json_error 404 ''Job not found''"
  by (auto simp: download_zip_def getJob_def empty_world_def advance_jobs
           split: option.splits if_splits)

theorem download_zip_cases_witness:
  "getJob ''nobody'' (photos_job photos []) = None
   \<and> download_zip ''nobody'' (photos_job photos []) = Json_error 404 ''Job not found''
   \<and> map_option status (getJob ''zip_1000_k3x9q2m1a''
         (photos_job photos [Output_open, Entry ''a.txt''])) = Some Zipping
   \<and> download_zip ''zip_1000_k3x9q2m1a'' (photos_job photos [Output_open, Entry ''a.txt''])
       = Json_error 400 ''Job not completed''
   \<and> download_zip ''zip_1000_k3x9q2m1a''
         (photos_job photos
            [Output_open, Entry ''a.txt'', Entry ''b.txt'', Entry ''c.txt'', Output_close])
       = Download ''/srv/temp/photos_1000.zip'' ''photos_1000.zip''
   \<and> map_option status (getJob ''zip_1000_k3x9q2m1a''
         (photos_job photos
            [Output_open, Entry ''a.txt'', Entry ''b.txt'', Entry ''c.txt'', Output_close]))
       = Some Completed
   \<and> Delete_job ''zip_1000_k3x9q2m1a''
         \<in> due_by (now (photos_job photos [Output_open, Archive_error ''EACCES'']) + 30000)
              (photos_job photos [Output_open, Archive_error ''EACCES''])
   \<and> download_zip ''zip_1000_k3x9q2m1a''
         (advance 30000 (photos_job photos [Output_open, Archive_error ''EACCES'']))
       = Json_error 404 ''Job not found''"
  using download_zip_cases [of "''nobody''" "photos_job photos []"]
    download_zip_cases [of "''zip_1000_k3x9q2m1a''"
      "photos_job photos [Output_open, Entry ''a.txt'']"]
    download_zip_cases [of "''zip_1000_k3x9q2m1a''"
      "photos_job photos [Output_open, Entry ''a.txt'', Entry ''b.txt'', Entry ''c.txt'', Output_close]"]
    download_zip_cases [of "''zip_1000_k3x9q2m1a''"
      "photos_job photos [Output_open, Archive_error ''EACCES'']" 30000]
  by (simp add: run_defs endpoint_defs due_by_def)

section \<open>Runs of one task\<close>

lemma step_task [simp]:
  "t_jobId (fst (step tw ev)) = t_jobId (fst tw)"
  "t_zipPath (fst (step tw ev)) = t_zipPath (fst tw)"
  "t_totalFiles (fst (step tw ev)) = t_totalFiles (fst tw)"
  "t_filesProcessed (fst (step tw ev)) = t_filesProcessed (fst tw) + (if is_entry ev then 1 else 0)"
  by (cases tw; cases ev; simp add: Let_def)+

lemma run_Nil [simp]: "run tw [] = tw"
  by (simp add: run_def)

lemma run_Cons [simp]: "run tw (ev # evs) = run (step tw ev) evs"
  by (simp add: run_def)

lemma run_append: "run tw (evs @ evs') = run (run tw evs) evs'"
  by (simp add: run_def)

lemma run_task [simp]:
  "t_jobId (fst (run tw evs)) = t_jobId (fst tw)"
  "t_zipPath (fst (run tw evs)) = t_zipPath (fst tw)"
  "t_totalFiles (fst (run tw evs)) = t_totalFiles (fst tw)"
  "t_filesProcessed (fst (run tw evs)) = t_filesProcessed (fst tw) + length (filter is_entry evs)"
  by (induction evs arbitrary: tw; simp)+

lemma updateJob_jobs:
  "activeJobs (updateJob jobId u w) k =
     (if k = jobId then map_option (\<lambda>j. assign j u) (activeJobs w jobId) else activeJobs w k)"
  by (simp add: updateJob_def split: option.splits)

lemma errorJob_jobs:
  "activeJobs (errorJob jobId m w) k =
     (if k = jobId then map_option (\<lambda>j. j\<lparr>status := Error, error := Some m\<rparr>) (activeJobs w jobId)
      else activeJobs w k)"
  by (simp add: errorJob_def setTimeout_def split: option.splits)

lemma errorJob_present:
  "activeJobs w jobId = Some j \<Longrightarrow>
     errorJob jobId m w = setTimeout (Delete_job jobId) 30000
       (w\<lparr>activeJobs := (activeJobs w)(jobId \<mapsto> j\<lparr>status := Error, error := Some m\<rparr>)\<rparr>)"
  by (simp add: errorJob_def)

lemma consistent_iff:
  "consistent (t, w) \<longleftrightarrow>
     (\<forall>j. activeJobs w (t_jobId t) = Some j \<longrightarrow>
          totalFiles j = t_totalFiles t \<and> filesProcessed j = t_filesProcessed t
          \<and> status j \<noteq> Initializing \<and> status j \<noteq> Counting
          \<and> (status j = Zipping \<and> 0 < totalFiles j \<longrightarrow>
                 progress j = round_percent (filesProcessed j) (totalFiles j))
          \<and> (status j = Completed \<longrightarrow> progress j = Num 100))"
  by (auto split: option.splits)

declare consistent.simps [simp del]

declare consistent_iff [simp]

lemma consistent_entry: "consistent (t, w) \<Longrightarrow> consistent (step (t, w) (Entry name))"
  by (simp add: updateJob_jobs Let_def) (auto simp: assign_def no_updates_def)

lemma consistent_close: "consistent (t, w) \<Longrightarrow> consistent (step (t, w) Output_close)"
  by (simp add: updateJob_jobs) (auto simp: assign_def no_updates_def)

lemma consistent_error: "consistent (t, w) \<Longrightarrow> consistent (t, errorJob (t_jobId t) m w)"
  by (simp add: errorJob_jobs) auto

lemma consistent_elapse: "consistent (t, w) \<Longrightarrow> consistent (t, advance d w)"
  by (simp add: advance_jobs)

lemma consistent_step: "consistent tw \<Longrightarrow> consistent (step tw ev)"
proof (cases tw)
  case (Pair t w)
  assume "consistent tw"
  with Pair have c: "consistent (t, w)" by simp
  show ?thesis
  proof (cases ev)
    case (Elapse d)
    with consistent_elapse [OF c] Pair show ?thesis by simp
  next
    case (Entry name)
    with consistent_entry [OF c] Pair show ?thesis by simp
  next
    case Output_open
    with c Pair show ?thesis by simp
  next
    case Output_close
    with consistent_close [OF c] Pair show ?thesis by simp
  next
    case (Archive_error m)
    with consistent_error [OF c] Pair show ?thesis by simp
  next
    case (Output_error m)
    with consistent_error [OF c] Pair show ?thesis by simp
  next
    case (Finalize_rejected m)
    with consistent_error [OF c] Pair show ?thesis by simp
  qed
qed

lemma consistent_run: "consistent tw \<Longrightarrow> consistent (run tw evs)"
  by (induction evs arbitrary: tw) (simp_all add: consistent_step)

lemma consistent_counted:
  "consistent (createZipWithProgress_counted
            \<lparr>t_jobId = jobId, t_zipPath = zp, t_totalFiles = 0, t_filesProcessed = 0\<rparr>
            folder
            (updateJob jobId
               (no_updates\<lparr>u_status := Some Counting, u_currentFile := Some ''Counting files...''\<rparr>)
               (createJob jobId fp w)))"
  by (simp add: createZipWithProgress_counted_def updateJob_def createJob_def
        assign_def no_updates_def round_percent_zero Let_def)

lemma consistent_zip_job: "consistent (zip_job tempDir jobId fp foldername folder evs w)"
  unfolding zip_job_unfold by (rule consistent_run) (rule consistent_counted)

lemma zip_job_task:
  "t_jobId (fst (zip_job tempDir jobId fp foldername folder evs w)) = jobId"
  "t_zipPath (fst (zip_job tempDir jobId fp foldername folder evs w)) = zip_path tempDir foldername (now w)"
  "t_totalFiles (fst (zip_job tempDir jobId fp foldername folder evs w)) = countFilesRecursive folder"
  "t_filesProcessed (fst (zip_job tempDir jobId fp foldername folder evs w)) = length (filter is_entry evs)"
  unfolding zip_job_unfold by (simp_all add: createZipWithProgress_counted_def Let_def)

lemma zip_job_snoc:
  "zip_job tempDir jobId fp foldername folder (evs @ [ev]) w =
     step (zip_job tempDir jobId fp foldername folder evs w) ev"
  by (simp add: zip_job_unfold run_append)

lemma zip_job_counters:
  assumes "activeJobs (snd (zip_job tempDir jobId fp foldername folder evs w)) jobId = Some j"
  shows "totalFiles j = countFilesRecursive folder"
    and "filesProcessed j = length (filter is_entry evs)"
    and "status j = Zipping \<Longrightarrow> 0 < totalFiles j \<Longrightarrow>
           progress j = round_percent (filesProcessed j) (totalFiles j)"
    and "status j = Completed \<Longrightarrow> progress j = Num 100"
proof -
  obtain t w' where tw: "zip_job tempDir jobId fp foldername folder evs w = (t, w')"
    by (cases "zip_job tempDir jobId fp foldername folder evs w")
  have t: "t_jobId t = jobId" "t_totalFiles t = countFilesRecursive folder"
      "t_filesProcessed t = length (filter is_entry evs)"
    using zip_job_task [of tempDir jobId fp foldername folder evs w] by (simp_all add: tw)
  have "consistent (t, w')"
    using consistent_zip_job [of tempDir jobId fp foldername folder evs w] by (simp add: tw)
  with assms t have *: "totalFiles j = countFilesRecursive folder
      \<and> filesProcessed j = length (filter is_entry evs)
      \<and> (status j = Zipping \<and> 0 < totalFiles j \<longrightarrow>
            progress j = round_percent (filesProcessed j) (totalFiles j))
      \<and> (status j = Completed \<longrightarrow> progress j = Num 100)"
    by (simp add: tw)
  from * show "totalFiles j = countFilesRecursive folder" by simp
  from * show "filesProcessed j = length (filter is_entry evs)" by simp
  from * show "progress j = round_percent (filesProcessed j) (totalFiles j)"
    if "status j = Zipping" "0 < totalFiles j" using that by simp
  from * show "progress j = Num 100" if "status j = Completed" using that by simp
qed

lemma status_after_callback:
  assumes "getJob jobId (snd (zip_job tempDir jobId fp foldername folder evs w)) = Some j"
  shows "map_option status (getJob jobId
           (snd (zip_job tempDir jobId fp foldername folder (evs @ [Entry name]) w))) = Some Zipping"
    and "map_option status (getJob jobId
           (snd (zip_job tempDir jobId fp foldername folder (evs @ [Output_close]) w))) = Some Completed"
    and "map_option status (getJob jobId
           (snd (zip_job tempDir jobId fp foldername folder (evs @ [Archive_error m]) w))) = Some Error"
proof -
  obtain t w' where tw: "zip_job tempDir jobId fp foldername folder evs w = (t, w')"
    by (cases "zip_job tempDir jobId fp foldername folder evs w")
  have t: "t_jobId t = jobId"
    using zip_job_task(1) [of tempDir jobId fp foldername folder evs w] by (simp add: tw)
  from assms have j: "activeJobs w' jobId = Some j"
    by (simp add: tw getJob_def)
  show "map_option status (getJob jobId
           (snd (zip_job tempDir jobId fp foldername folder (evs @ [Entry name]) w))) = Some Zipping"
    by (simp add: zip_job_snoc tw t j getJob_def updateJob_jobs Let_def assign_def no_updates_def)
  show "map_option status (getJob jobId
           (snd (zip_job tempDir jobId fp foldername folder (evs @ [Output_close]) w))) = Some Completed"
    by (simp add: zip_job_snoc tw t j getJob_def updateJob_jobs assign_def no_updates_def)
  show "map_option status (getJob jobId
           (snd (zip_job tempDir jobId fp foldername folder (evs @ [Archive_error m]) w))) = Some Error"
    by (simp add: zip_job_snoc tw t j getJob_def errorJob_jobs)
qed

lemma step_keeps_job:
  "\<forall>d. ev \<noteq> Elapse d \<Longrightarrow> activeJobs (snd tw) (t_jobId (fst tw)) \<noteq> None \<Longrightarrow>
     activeJobs (snd (step tw ev)) (t_jobId (fst tw)) \<noteq> None"
  by (cases tw; cases ev) (auto simp: updateJob_jobs errorJob_jobs Let_def)

lemma run_keeps_job:
  "\<forall>d. Elapse d \<notin> set evs \<Longrightarrow> activeJobs (snd tw) (t_jobId (fst tw)) \<noteq> None \<Longrightarrow>
     activeJobs (snd (run tw evs)) (t_jobId (fst tw)) \<noteq> None"
proof (induction evs arbitrary: tw)
  case Nil
  then show ?case by simp
next
  case (Cons ev evs)
  from Cons.prems have "\<forall>d. ev \<noteq> Elapse d" by auto
  then have "activeJobs (snd (step tw ev)) (t_jobId (fst (step tw ev))) \<noteq> None"
    using Cons.prems(2) by (simp add: step_keeps_job)
  moreover from Cons.prems have "\<forall>d. Elapse d \<notin> set evs" by auto
  ultimately have "activeJobs (snd (run (step tw ev) evs)) (t_jobId (fst (step tw ev))) \<noteq> None"
    by (rule Cons.IH [rotated])
  then show ?case by simp
qed

lemma zip_job_keeps_job:
  assumes "\<forall>d. Elapse d \<notin> set evs"
  shows "getJob jobId (snd (zip_job tempDir jobId fp foldername folder evs w)) \<noteq> None"
proof -
  let ?tw = "createZipWithProgress_counted
      \<lparr>t_jobId = jobId, t_zipPath = zip_path tempDir foldername (now w),
         t_totalFiles = 0, t_filesProcessed = 0\<rparr>
      folder
      (updateJob jobId
         (no_updates\<lparr>u_status := Some Counting, u_currentFile := Some ''Counting files...''\<rparr>)
         (createJob jobId fp w))"
  have i: "t_jobId (fst ?tw) = jobId"
    by (simp add: createZipWithProgress_counted_def Let_def)
  have "activeJobs (snd ?tw) (t_jobId (fst ?tw)) \<noteq> None"
    by (simp add: createZipWithProgress_counted_def Let_def updateJob_jobs createJob_def)
  from run_keeps_job [OF assms this] show ?thesis
    by (simp add: zip_job_unfold getJob_def i)
qed

lemma count_items_files: "count_items (map (\<lambda>i. (f i, File)) xs) c = c + length xs"
  by (induction xs arbitrary: c) simp_all

lemma filter_entries: "filter is_entry (map (\<lambda>i. Entry (f i)) xs) = map (\<lambda>i. Entry (f i)) xs"
  by (induction xs) simp_all

section \<open>The progress percentage\<close>

text \<open>
  C3 as stated fails, in two ways. With 23 of 40 files done the job reports 57: the
  double nearest to 23/40 lies below it, the product by 100 rounds to a double just
  below 57.5, and \<^verbatim>\<open>Math.round\<close> gives 57, where the percentage 57.5 rounds to
  58. And a job with \<^verbatim>\<open>totalFiles > 0\<close> need not show the percentage of its
  counters at all: an error after the output has closed leaves the job in error with
  progress 100 and one of three files processed.
\<close>

theorem progress_rounding_counterexample:
  "map_option (\<lambda>j. (status j, filesProcessed j, totalFiles j, progress j))
     (getJob ''zip_1000_k3x9q2m1a''
        (photos_job (Dir (map (\<lambda>i. (decimal i, File)) [1..<41]))
           ((Output_open # map (\<lambda>i. Entry (decimal i)) [1..<23]) @ [Entry ''23''])))
     = Some (Zipping, 23, 40, Num 57)
   \<and> spec_round_percent 23 40 = 58
   \<and> map_option (\<lambda>j. (status j, filesProcessed j, totalFiles j, progress j))
     (getJob ''zip_1000_k3x9q2m1a''
        (photos_job photos [Output_open, Entry ''a.txt'', Output_close, Archive_error ''EIO'']))
     = Some (Error, 1, 3, Num 100)
   \<and> spec_round_percent 1 3 = 33"
proof -
  let ?id = "''zip_1000_k3x9q2m1a''"
  let ?folder = "Dir (map (\<lambda>i. (decimal i, File)) [1..<41])"
  let ?evs = "Output_open # map (\<lambda>i. Entry (decimal i)) [1..<23]"
  let ?z = "\<lambda>evs. snd (zip_job ''/srv/temp'' ?id ''/data/photos'' ''photos'' ?folder evs
      (empty_world 1000))"
  have "\<forall>d. Elapse d \<notin> set ?evs"
    by auto
  from zip_job_keeps_job [OF this] obtain j0 where "getJob ?id (?z ?evs) = Some j0"
    by blast
  from status_after_callback(1) [OF this, of "''23''"] obtain j
    where j: "getJob ?id (?z (?evs @ [Entry ''23''])) = Some j" and s: "status j = Zipping"
    by auto
  from j have a: "activeJobs (?z (?evs @ [Entry ''23''])) ?id = Some j"
    by (simp add: getJob_def)
  have t: "totalFiles j = 40"
    using zip_job_counters(1) [OF a] by (simp add: count_items_files)
  have f: "filesProcessed j = 23"
    using zip_job_counters(2) [OF a] by (simp add: filter_entries)
  have "progress j = round_percent (filesProcessed j) (totalFiles j)"
    using zip_job_counters(3) [OF a s] t by simp
  then have p: "progress j = Num 57"
    by (simp add: t f round_percent_values)
  have one: "map_option (\<lambda>j. (status j, filesProcessed j, totalFiles j, progress j))
     (getJob ?id (photos_job ?folder (?evs @ [Entry ''23'']))) = Some (Zipping, 23, 40, Num 57)"
    unfolding photos_job_def using j s t f p by simp
  have two: "map_option (\<lambda>j. (status j, filesProcessed j, totalFiles j, progress j))
     (getJob ?id
        (photos_job photos [Output_open, Entry ''a.txt'', Output_close, Archive_error ''EIO'']))
     = Some (Error, 1, 3, Num 100)"
    by (simp add: run_defs getJob_def)
  have three: "spec_round_percent 23 40 = 58" "spec_round_percent 1 3 = 33"
    by (simp_all add: spec_round_percent_def)
  from one two three show ?thesis
    by simp
qed


text \<open>
  C3, amended: a new job reports progress 0, and still does while it is counting.
  From the count on, whatever the engine and the clock do, a registered job that is
  zipping with \<^verbatim>\<open>totalFiles > 0\<close> reports
  \<^verbatim>\<open>Math.round((filesProcessed / totalFiles) * 100)\<close> of its own two counters as
  JavaScript computes it in doubles, and a job that is completed reports exactly 100.
  For up to \<^verbatim>\<open>2^43\<close> processed files the computed value is the percentage
  rounded to the nearest integer, halves up, or one less than that where the
  percentage lies exactly on a half. An error leaves the progress as it was.
\<close>

theorem progress_tracks_counters:
  "map_option progress (activeJobs (createJob jobId fp w) jobId) = Some (Num 0)
   \<and> map_option (\<lambda>j. (status j, totalFiles j, progress j))
        (activeJobs (snd (createZipWithProgress_setup tempDir jobId foldername None
                            (createJob jobId fp w))) jobId)
       = Some (Counting, 0, Num 0)
   \<and> (\<forall>j. activeJobs (snd (zip_job tempDir jobId fp foldername folder evs w)) jobId = Some j \<longrightarrow>
          totalFiles j = countFilesRecursive folder
          \<and> filesProcessed j = length (filter is_entry evs)
          \<and> (status j = Zipping \<and> 0 < totalFiles j \<longrightarrow>
                 progress j = round_percent (filesProcessed j) (totalFiles j))
          \<and> (status j = Completed \<longrightarrow> progress j = Num 100))
   \<and> (0 < t \<and> p \<le> 8796093022208 \<longrightarrow>
          round_percent p t = Num (int (spec_round_percent p t))
          \<or> ((200 * p + t) mod (2 * t) = 0
               \<and> round_percent p t = Num (int (spec_round_percent p t) - 1)))
   \<and> (0 < t \<longrightarrow> int (spec_round_percent p t) = \<lfloor>100 * real p / real t + 1 / 2\<rfloor>)
   \<and> (\<forall>j. getJob jobId w = Some j \<longrightarrow>
          map_option progress (getJob jobId (errorJob jobId m w)) = Some (progress j))"
proof (intro conjI allI impI)
  show "map_option progress (activeJobs (createJob jobId fp w) jobId) = Some (Num 0)"
    by (simp add: createJob_def)
  show "map_option (\<lambda>j. (status j, totalFiles j, progress j))
        (activeJobs (snd (createZipWithProgress_setup tempDir jobId foldername None
                            (createJob jobId fp w))) jobId)
       = Some (Counting, 0, Num 0)"
    by (simp add: createZipWithProgress_setup_def createJob_def updateJob_def assign_def
          no_updates_def)
  show "round_percent p t = Num (int (spec_round_percent p t))
          \<or> ((200 * p + t) mod (2 * t) = 0
               \<and> round_percent p t = Num (int (spec_round_percent p t) - 1))"
    if "0 < t \<and> p \<le> 8796093022208"
    using that by (simp add: round_percent_rounding)
  show "int (spec_round_percent p t) = \<lfloor>100 * real p / real t + 1 / 2\<rfloor>" if "0 < t"
    using that by (rule spec_round_percent_floor)
  show "map_option progress (getJob jobId (errorJob jobId m w)) = Some (progress j)"
    if "getJob jobId w = Some j" for j
    using that by (simp add: getJob_def errorJob_jobs)
next
  fix j
  assume j: "activeJobs (snd (zip_job tempDir jobId fp foldername folder evs w)) jobId = Some j"
  show "totalFiles j = countFilesRecursive folder"
    by (rule zip_job_counters(1) [OF j])
  show "filesProcessed j = length (filter is_entry evs)"
    by (rule zip_job_counters(2) [OF j])
  show "progress j = round_percent (filesProcessed j) (totalFiles j)"
    if "status j = Zipping \<and> 0 < totalFiles j"
    using that zip_job_counters(3) [OF j] by simp
  show "progress j = Num 100" if "status j = Completed"
    using that zip_job_counters(4) [OF j] by simp
qed

theorem progress_tracks_counters_witness:
  "map_option (\<lambda>j. (status j, filesProcessed j, totalFiles j, progress j))
     (activeJobs (photos_job photos [Output_open, Entry ''a.txt'', Entry ''b.txt''])
        ''zip_1000_k3x9q2m1a'')
   = Some (Zipping, 2, 3, Num 67)
   \<and> map_option (\<lambda>j. (status j, filesProcessed j, totalFiles j, progress j))
     (activeJobs
        (photos_job photos
           [Output_open, Entry ''a.txt'', Entry ''b.txt'', Entry ''c.txt'', Output_close])
        ''zip_1000_k3x9q2m1a'')
   = Some (Completed, 3, 3, Num 100)
   \<and> (0::nat) < 3 \<and> (2::nat) \<le> 8796093022208
   \<and> round_percent 2 3 = Num 67 \<and> spec_round_percent 2 3 = 67
   \<and> (0::nat) < 40 \<and> (23::nat) \<le> 8796093022208
   \<and> (200 * 23 + 40) mod (2 * 40) = (0::nat)
   \<and> round_percent 23 40 = Num 57 \<and> spec_round_percent 23 40 = 58
   \<and> \<lfloor>100 * real 2 / real 3 + 1 / 2\<rfloor> = 67
   \<and> map_option progress
       (getJob ''zip_1000_k3x9q2m1a''
          (errorJob ''zip_1000_k3x9q2m1a'' ''EIO''
             (photos_job photos [Output_open, Entry ''a.txt'', Entry ''b.txt''])))
     = Some (Num 67)"
proof -
  let ?id = "''zip_1000_k3x9q2m1a''"
  let ?w1 = "photos_job photos [Output_open, Entry ''a.txt'', Entry ''b.txt'']"
  let ?J1 = "\<lparr>job_id = ?id, folderPath = ''/data/photos'', startTime = 1000,
      progress = Num 67, status = Zipping, filesProcessed = 2, totalFiles = 3,
      currentFile = ''b.txt'', error = None, zipPath = None\<rparr>"
  let ?J2 = "\<lparr>job_id = ?id, folderPath = ''/data/photos'', startTime = 1000,
      progress = Num 100, status = Completed, filesProcessed = 3, totalFiles = 3,
      currentFile = ''Completed'', error = None, zipPath = Some ''/srv/temp/photos_1000.zip''\<rparr>"
  have j1: "activeJobs ?w1 ?id = Some ?J1"
    by (simp add: run_defs)
  have j2: "activeJobs (photos_job photos
      [Output_open, Entry ''a.txt'', Entry ''b.txt'', Entry ''c.txt'', Output_close]) ?id = Some ?J2"
    by (simp add: run_defs)
  note inst = progress_tracks_counters [where jobId = ?id and fp = "''/data/photos''"
      and tempDir = "''/srv/temp''" and foldername = "''photos''" and folder = photos]
  have a: "progress ?J1 = round_percent (filesProcessed ?J1) (totalFiles ?J1)"
    using inst [where evs = "[Output_open, Entry ''a.txt'', Entry ''b.txt'']"
        and w = "empty_world 1000"]
      j1 [unfolded photos_job_def] by simp
  have b: "progress ?J2 = Num 100"
    using inst [where evs = "[Output_open, Entry ''a.txt'', Entry ''b.txt'', Entry ''c.txt'', Output_close]"
        and w = "empty_world 1000"]
      j2 [unfolded photos_job_def] by simp
  have s: "spec_round_percent 2 3 = 67" "spec_round_percent 23 40 = 58"
    "(200 * 23 + 40) mod (2 * 40) = (0::nat)"
    by (simp_all add: spec_round_percent_def)
  from a have c: "round_percent 2 3 = Num 67"
    by simp
  note inst0 = inst [where w = "empty_world 1000" and evs = "[]" and m = "[]"]
  have h: "(0::nat) < 40 \<and> (23::nat) \<le> 8796093022208" "(0::nat) < 3"
    by simp_all
  from inst0 [where p = 23 and t = 40] h(1)
  have "round_percent 23 40 = Num (int (spec_round_percent 23 40))
      \<or> ((200 * 23 + 40) mod (2 * 40) = (0::nat)
           \<and> round_percent 23 40 = Num (int (spec_round_percent 23 40) - 1))"
    by blast
  then have d: "round_percent 23 40 = Num 58 \<or> round_percent 23 40 = Num 57"
    by (simp add: s)
  have e: "round_percent 23 40 = Num 57"
    by (simp add: round_percent_values)
  from inst0 [where p = 2 and t = 3] h(2)
  have "int (spec_round_percent 2 3) = \<lfloor>100 * real 2 / real 3 + 1 / 2\<rfloor>"
    by blast
  then have f: "\<lfloor>100 * real 2 / real 3 + 1 / 2\<rfloor> = 67"
    by (simp add: s)
  have "getJob ?id ?w1 = Some ?J1"
    using j1 by (simp add: getJob_def)
  with inst [where w = ?w1 and m = "''EIO''"]
  have g: "map_option progress (getJob ?id (errorJob ?id ''EIO'' ?w1)) = Some (progress ?J1)"
    by blast
  from j1 j2 a b c d e f g s show ?thesis
    by simp
qed

section \<open>The two counters\<close>

text \<open>
  While a job stays registered, \<^verbatim>\<open>filesProcessed\<close> is the number of entry events
  so far, so a later read never shows less than an earlier one.
\<close>

lemma filesProcessed_nondecreasing:
  assumes "activeJobs (snd (zip_job tempDir jobId fp foldername folder evs w)) jobId = Some j"
    and "activeJobs (snd (zip_job tempDir jobId fp foldername folder (evs @ evs') w)) jobId = Some j'"
  shows "filesProcessed j \<le> filesProcessed j'"
  using zip_job_counters(2) [OF assms(1)] zip_job_counters(2) [OF assms(2)] by simp

text \<open>
  The bound holds exactly as long as the engine has reported no more entries than
  the count found files.
\<close>

lemma filesProcessed_bound_iff:
  assumes "activeJobs (snd (zip_job tempDir jobId fp foldername folder evs w)) jobId = Some j"
  shows "filesProcessed j \<le> totalFiles j \<longleftrightarrow>
           length (filter is_entry evs) \<le> countFilesRecursive folder"
  using zip_job_counters(1) [OF assms] zip_job_counters(2) [OF assms] by simp

text \<open>
  C1: the bound \<^verbatim>\<open>filesProcessed \<le> totalFiles\<close> does not hold. The count has
  one file for a folder holding the subfolder \<^verbatim>\<open>sub\<close> with the file
  \<^verbatim>\<open>a.txt\<close>; two entry events for that folder leave the job with
  \<^verbatim>\<open>filesProcessed = 2\<close> against \<^verbatim>\<open>totalFiles = 1\<close>, and with a percentage
  of 2 out of 1.
\<close>

theorem filesProcessed_exceeds_totalFiles:
  "map_option (\<lambda>j. (status j, filesProcessed j, totalFiles j, progress j))
     (activeJobs
        (photos_job (Dir [(''sub'', Dir [(''a.txt'', File)])])
           [Output_open, Entry ''sub/'', Entry ''sub/a.txt''])
        ''zip_1000_k3x9q2m1a'')
   = Some (Zipping, 2, 1, Num 200)"
  by (simp add: run_defs)


section \<open>Counting files\<close>

lemma countFilesRecursive_readable:
  "stat_ok n \<Longrightarrow> countFilesRecursive n = spec_countFiles n"
  "stats_ok items \<Longrightarrow> count_items items c = c + spec_count_items items"
  by (induction n and items c rule: countFilesRecursive_count_items.induct) simp_all


text \<open>
  C8: a \<^verbatim>\<open>stat\<close> that throws on the first entry of a folder ends the count of
  that folder: the file and the subfolder listed after it are not counted, where the
  specification's count skips the failing entry alone.
\<close>

theorem countFilesRecursive_stat_failure:
  "countFilesRecursive
     (Dir [(''a.txt'', Stat_fails), (''b.txt'', File), (''sub'', Dir [(''c.txt'', File)])]) = 0
   \<and> spec_countFiles
     (Dir [(''a.txt'', Stat_fails), (''b.txt'', File), (''sub'', Dir [(''c.txt'', File)])]) = 2"
  by simp


section \<open>Leaving a terminal state\<close>

text \<open>
  C2 as stated fails: \<^verbatim>\<open>updateJob\<close> looks only at whether the job is in the map.
  After an output error has put the job into error, the output's close event makes
  it completed; after completion, a further entry event makes it zipping again; and
  a direct \<^verbatim>\<open>updateJob\<close> on the job in error changes its status.
\<close>

theorem updateJob_terminal_counterexample:
  "map_option status (activeJobs
      (photos_job photos [Output_open, Entry ''a.txt'', Output_error ''ENOSPC''])
      ''zip_1000_k3x9q2m1a'') = Some Error
   \<and> map_option status (activeJobs
      (photos_job photos [Output_open, Entry ''a.txt'', Output_error ''ENOSPC'', Output_close])
      ''zip_1000_k3x9q2m1a'') = Some Completed
   \<and> map_option status (activeJobs
      (photos_job photos [Output_open, Entry ''a.txt'', Output_close, Entry ''b.txt''])
      ''zip_1000_k3x9q2m1a'') = Some Zipping
   \<and> map_option status (activeJobs
      (updateJob ''zip_1000_k3x9q2m1a'' (no_updates\<lparr>u_status := Some Counting\<rparr>)
         (photos_job photos [Output_open, Entry ''a.txt'', Output_error ''ENOSPC'']))
      ''zip_1000_k3x9q2m1a'') = Some Counting"
  by (simp add: run_defs)

text \<open>
  C2, amended: \<^verbatim>\<open>updateJob\<close> leaves the whole state as it is when the job is
  missing. When the job is registered it merges the given fields into the record,
  whatever the job's status, and touches nothing else; so after any run that leaves
  the job registered, in a terminal state or not, an entry event sets the status to
  zipping, the output's close to completed and an error to error.
\<close>

theorem updateJob_merges_any_status:
  "(getJob jobId w = None \<longrightarrow> updateJob jobId u w = w)
   \<and> (\<forall>j. getJob jobId w = Some j \<longrightarrow>
          getJob jobId (updateJob jobId u w) = Some (assign j u)
          \<and> (\<forall>k. k \<noteq> jobId \<longrightarrow> getJob k (updateJob jobId u w) = getJob k w)
          \<and> timers (updateJob jobId u w) = timers w
          \<and> disk (updateJob jobId u w) = disk w
          \<and> now (updateJob jobId u w) = now w)
   \<and> (\<forall>j. getJob jobId (snd (zip_job tempDir jobId fp foldername folder evs w)) = Some j \<longrightarrow>
          map_option status (getJob jobId
            (snd (zip_job tempDir jobId fp foldername folder (evs @ [Entry name]) w))) = Some Zipping
          \<and> map_option status (getJob jobId
            (snd (zip_job tempDir jobId fp foldername folder (evs @ [Output_close]) w))) = Some Completed
          \<and> map_option status (getJob jobId
            (snd (zip_job tempDir jobId fp foldername folder (evs @ [Archive_error m]) w))) = Some Error)"
proof (intro conjI allI impI)
  show "updateJob jobId u w = w" if "getJob jobId w = None"
    using that by (simp add: getJob_def updateJob_def)
next
  fix j
  assume j: "getJob jobId w = Some j"
  then show "getJob jobId (updateJob jobId u w) = Some (assign j u)"
    by (simp add: getJob_def updateJob_jobs)
  show "getJob k (updateJob jobId u w) = getJob k w" if "k \<noteq> jobId" for k
    using that by (simp add: getJob_def updateJob_jobs)
  from j show "timers (updateJob jobId u w) = timers w"
    by (simp add: getJob_def updateJob_def)
  from j show "disk (updateJob jobId u w) = disk w"
    by (simp add: getJob_def updateJob_def)
  from j show "now (updateJob jobId u w) = now w"
    by (simp add: getJob_def updateJob_def)
next
  fix j
  assume j: "getJob jobId (snd (zip_job tempDir jobId fp foldername folder evs w)) = Some j"
  show "map_option status (getJob jobId
          (snd (zip_job tempDir jobId fp foldername folder (evs @ [Entry name]) w))) = Some Zipping"
    by (rule status_after_callback(1) [OF j])
  show "map_option status (getJob jobId
          (snd (zip_job tempDir jobId fp foldername folder (evs @ [Output_close]) w))) = Some Completed"
    by (rule status_after_callback(2) [OF j])
  show "map_option status (getJob jobId
          (snd (zip_job tempDir jobId fp foldername folder (evs @ [Archive_error m]) w))) = Some Error"
    by (rule status_after_callback(3) [OF j])
qed

theorem updateJob_merges_any_status_witness:
  "getJob ''nobody'' (photos_job photos []) = None
   \<and> updateJob ''nobody'' (no_updates\<lparr>u_status := Some Zipping\<rparr>) (photos_job photos [])
       = photos_job photos []
   \<and> map_option status (getJob ''zip_1000_k3x9q2m1a''
         (photos_job photos [Output_open, Archive_error ''EACCES''])) = Some Error
   \<and> map_option status (getJob ''zip_1000_k3x9q2m1a''
         (updateJob ''zip_1000_k3x9q2m1a'' (no_updates\<lparr>u_status := Some Zipping\<rparr>)
            (photos_job photos [Output_open, Archive_error ''EACCES'']))) = Some Zipping
   \<and> map_option status (getJob ''zip_1000_k3x9q2m1a''
         (photos_job photos ([Output_open, Archive_error ''EACCES''] @ [Output_close])))
       = Some Completed"
proof -
  let ?id = "''zip_1000_k3x9q2m1a''"
  let ?u = "no_updates\<lparr>u_status := Some Zipping\<rparr>"
  let ?w = "photos_job photos [Output_open, Archive_error ''EACCES'']"
  let ?j = "\<lparr>job_id = ?id, folderPath = ''/data/photos'', startTime = 1000,
      progress = Num 0, status = Error, filesProcessed = 0, totalFiles = 3,
      currentFile = ''Counting files...'', error = Some ''EACCES'', zipPath = None\<rparr>"
  have a: "getJob ''nobody'' (photos_job photos []) = None"
    by (simp add: run_defs getJob_def)
  have b: "getJob ?id ?w = Some ?j"
    by (simp add: run_defs getJob_def)
  from a updateJob_merges_any_status [of "''nobody''" "photos_job photos []" ?u]
  have c: "updateJob ''nobody'' ?u (photos_job photos []) = photos_job photos []"
    by blast
  from b updateJob_merges_any_status [of ?id ?w ?u]
  have "getJob ?id (updateJob ?id ?u ?w) = Some (assign ?j ?u)"
    by blast
  then have d: "map_option status (getJob ?id (updateJob ?id ?u ?w)) = Some Zipping"
    by (simp add: assign_def no_updates_def)
  from b [unfolded photos_job_def]
    updateJob_merges_any_status [where jobId = ?id and tempDir = "''/srv/temp''"
      and fp = "''/data/photos''" and foldername = "''photos''" and folder = photos
      and evs = "[Output_open, Archive_error ''EACCES'']" and w = "empty_world 1000"]
  have e: "map_option status (getJob ?id
      (photos_job photos ([Output_open, Archive_error ''EACCES''] @ [Output_close]))) = Some Completed"
    unfolding photos_job_def by blast
  from a b c d e show ?thesis by simp
qed

section \<open>Empty folders\<close>

text \<open>
  C4 as stated fails: for an empty folder the job enters zipping with
  \<^verbatim>\<open>totalFiles = 0\<close> and progress 0, not 100.
\<close>

theorem empty_folder_progress_counterexample:
  "map_option (\<lambda>j. (status j, totalFiles j, progress j))
     (activeJobs (photos_job (Dir []) []) ''zip_1000_k3x9q2m1a'') = Some (Zipping, 0, Num 0)"
  by (simp add: run_defs)

text \<open>
  C4, amended: when the count is 0, the job enters zipping with progress 0, and its
  progress becomes 100 when the output closes, after whatever run has left the job
  registered.
\<close>

theorem empty_folder_progress:
  "countFilesRecursive folder = 0 \<Longrightarrow>
     map_option (\<lambda>j. (status j, totalFiles j, progress j))
       (activeJobs (snd (zip_job tempDir jobId fp foldername folder [] w)) jobId)
     = Some (Zipping, 0, Num 0)
     \<and> map_option (\<lambda>j. (status j, totalFiles j, progress j))
       (activeJobs (snd (zip_job tempDir jobId fp foldername folder [Output_open, Output_close] w)) jobId)
     = Some (Completed, 0, Num 100)
     \<and> (\<forall>j. getJob jobId (snd (zip_job tempDir jobId fp foldername folder evs w)) = Some j \<longrightarrow>
           map_option (\<lambda>j. (status j, totalFiles j, progress j))
             (getJob jobId (snd (zip_job tempDir jobId fp foldername folder (evs @ [Output_close]) w)))
           = Some (Completed, 0, Num 100))"
proof (intro conjI allI impI)
  assume z: "countFilesRecursive folder = 0"
  then show "map_option (\<lambda>j. (status j, totalFiles j, progress j))
       (activeJobs (snd (zip_job tempDir jobId fp foldername folder [] w)) jobId)
     = Some (Zipping, 0, Num 0)"
    by (simp add: zip_job_unfold createZipWithProgress_counted_def updateJob_jobs createJob_def
          assign_def no_updates_def)
  from z show "map_option (\<lambda>j. (status j, totalFiles j, progress j))
       (activeJobs (snd (zip_job tempDir jobId fp foldername folder [Output_open, Output_close] w)) jobId)
     = Some (Completed, 0, Num 100)"
    by (simp add: zip_job_unfold createZipWithProgress_counted_def updateJob_jobs createJob_def
          assign_def no_updates_def)
  fix j
  assume "getJob jobId (snd (zip_job tempDir jobId fp foldername folder evs w)) = Some j"
  from status_after_callback(2) [OF this] obtain j'
    where j': "getJob jobId (snd (zip_job tempDir jobId fp foldername folder (evs @ [Output_close]) w))
        = Some j'"
      and s: "status j' = Completed"
    by auto
  from j' have a: "activeJobs (snd (zip_job tempDir jobId fp foldername folder (evs @ [Output_close]) w))
      jobId = Some j'"
    by (simp add: getJob_def)
  have "totalFiles j' = 0"
    using zip_job_counters(1) [OF a] z by simp
  moreover have "progress j' = Num 100"
    by (rule zip_job_counters(4) [OF a s])
  ultimately show "map_option (\<lambda>j. (status j, totalFiles j, progress j))
       (getJob jobId (snd (zip_job tempDir jobId fp foldername folder (evs @ [Output_close]) w)))
     = Some (Completed, 0, Num 100)"
    using j' s by simp
qed

theorem empty_folder_progress_witness:
  "countFilesRecursive (Dir []) = 0
   \<and> map_option (\<lambda>j. (status j, totalFiles j, progress j))
       (activeJobs (photos_job (Dir []) []) ''zip_1000_k3x9q2m1a'')
     = Some (Zipping, 0, Num 0)
   \<and> map_option (\<lambda>j. (status j, totalFiles j, progress j))
       (activeJobs (photos_job (Dir []) [Output_open, Output_close])
          ''zip_1000_k3x9q2m1a'')
     = Some (Completed, 0, Num 100)
   \<and> map_option status
       (getJob ''zip_1000_k3x9q2m1a'' (photos_job (Dir []) [Output_open, Elapse 60000]))
     = Some Zipping
   \<and> map_option (\<lambda>j. (status j, totalFiles j, progress j))
       (getJob ''zip_1000_k3x9q2m1a''
          (photos_job (Dir []) ([Output_open, Elapse 60000] @ [Output_close])))
     = Some (Completed, 0, Num 100)"
proof -
  let ?id = "''zip_1000_k3x9q2m1a''"
  let ?j = "\<lparr>job_id = ?id, folderPath = ''/data/photos'', startTime = 1000,
      progress = Num 0, status = Zipping, filesProcessed = 0, totalFiles = 0,
      currentFile = ''Counting files...'', error = None, zipPath = None\<rparr>"
  have a: "countFilesRecursive (Dir []) = 0"
    by simp
  have b: "getJob ?id (photos_job (Dir []) [Output_open, Elapse 60000]) = Some ?j"
    by (simp add: run_defs getJob_def)
  note inst = empty_folder_progress [OF a, of "''/srv/temp''" ?id "''/data/photos''"
      "''photos''" "empty_world 1000" "[Output_open, Elapse 60000]"]
  from inst b [unfolded photos_job_def]
  have c: "map_option (\<lambda>j. (status j, totalFiles j, progress j))
       (getJob ?id (photos_job (Dir []) ([Output_open, Elapse 60000] @ [Output_close])))
     = Some (Completed, 0, Num 100)"
    unfolding photos_job_def by blast
  from inst have d: "map_option (\<lambda>j. (status j, totalFiles j, progress j))
       (activeJobs (photos_job (Dir []) []) ?id) = Some (Zipping, 0, Num 0)"
    and e: "map_option (\<lambda>j. (status j, totalFiles j, progress j))
       (activeJobs (photos_job (Dir []) [Output_open, Output_close]) ?id)
     = Some (Completed, 0, Num 100)"
    unfolding photos_job_def by blast+
  from a b c d e show ?thesis
    by simp
qed

text \<open>
  An entry event on a task whose count was 0 evaluates
  \<^verbatim>\<open>filesProcessed / 0\<close>, and the job reports \<^verbatim>\<open>Infinity\<close>.
\<close>

lemma entry_divides_by_zero:
  "activeJobs w (t_jobId t) = Some j \<Longrightarrow> t_totalFiles t = 0 \<Longrightarrow>
     map_option progress (activeJobs (snd (step (t, w) (Entry name))) (t_jobId t)) = Some Infinity"
  by (simp add: updateJob_jobs Let_def assign_def no_updates_def round_percent_def)

section \<open>Eviction\<close>

text \<open>
  \<^verbatim>\<open>errorJob\<close> and \<^verbatim>\<open>completeJob\<close> both schedule the removal of the job 30
  seconds ahead.
\<close>

lemma errorJob_evicted:
  "activeJobs w jobId = Some j \<Longrightarrow> 30000 \<le> d \<Longrightarrow>
     activeJobs (advance d (errorJob jobId m w)) jobId = None"
  by (simp add: advance_jobs due_by_def errorJob_def setTimeout_def)

lemma completeJob_evicted:
  "activeJobs w jobId = Some j \<Longrightarrow> 30000 \<le> d \<Longrightarrow>
     activeJobs (advance d (completeJob jobId w)) jobId = None"
  by (simp add: advance_jobs due_by_def completeJob_def setTimeout_def)

text \<open>
  Entry events and the opening and closing of the output schedule nothing.
\<close>

lemma quiet_step_timers:
  "ev = Output_open \<or> ev = Output_close \<or> is_entry ev \<Longrightarrow> timers (snd (step tw ev)) = timers (snd tw)"
  by (cases tw; cases ev) (simp_all add: updateJob_def Let_def split: option.splits)

lemma quiet_run_timers:
  "\<forall>ev \<in> set evs. ev = Output_open \<or> ev = Output_close \<or> is_entry ev \<Longrightarrow>
     timers (snd (run tw evs)) = timers (snd tw)"
  by (induction evs arbitrary: tw) (simp_all add: quiet_step_timers)

text \<open>
  C5: the output's close handler completes the job through \<^verbatim>\<open>updateJob\<close>, not
  through \<^verbatim>\<open>completeJob\<close>, so no removal is scheduled: after the example job has
  completed there is no pending callback, and the job is still registered after any
  time \<open>d\<close>.
\<close>

theorem completed_job_never_evicted:
  "timers (photos_job photos
      [Output_open, Entry ''a.txt'', Entry ''b.txt'', Entry ''c.txt'', Output_close]) = []
   \<and> map_option status (activeJobs
        (advance d (photos_job photos
           [Output_open, Entry ''a.txt'', Entry ''b.txt'', Entry ''c.txt'', Output_close]))
        ''zip_1000_k3x9q2m1a'') = Some Completed"
  by (simp add: run_defs)


section \<open>Failures\<close>

text \<open>
  C6 as stated fails: after an output error in mid-archive the job is in error with
  the failure's message, but the partly written file is still in the temp directory,
  also after the job's eviction; and the close event that follows the error
  completes the job, whose file is then served.
\<close>

theorem partial_artifact_kept_counterexample:
  "map_option (\<lambda>j. (status j, error j)) (activeJobs
      (photos_job photos [Output_open, Entry ''a.txt'', Output_error ''ENOSPC''])
      ''zip_1000_k3x9q2m1a'') = Some (Error, Some ''ENOSPC'')
   \<and> ''/srv/temp/photos_1000.zip''
        \<in> disk (photos_job photos [Output_open, Entry ''a.txt'', Output_error ''ENOSPC''])
   \<and> ''/srv/temp/photos_1000.zip''
        \<in> disk (advance 30000
              (photos_job photos [Output_open, Entry ''a.txt'', Output_error ''ENOSPC'']))
   \<and> download_zip ''zip_1000_k3x9q2m1a''
        (photos_job photos [Output_open, Entry ''a.txt'', Output_error ''ENOSPC'', Output_close])
      = Download ''/srv/temp/photos_1000.zip'' ''photos_1000.zip''"
  by (simp add: run_defs endpoint_defs)

text \<open>
  C6, amended: a failure of \<^verbatim>\<open>fs.mkdir\<close>, an error event of the archive or of
  the output, and a rejected \<^verbatim>\<open>finalize\<close> all end in \<^verbatim>\<open>errorJob\<close> with the
  failure's message. For a registered job that sets status error and the message,
  schedules the job's removal 30 seconds ahead and leaves the files as they are, now
  and at any later time; the download endpoint then answers 400 "Job not
  completed", and after 30 seconds the job is gone.
\<close>

theorem error_marks_job_keeps_file:
  "createZipWithProgress_setup tempDir jobId foldername (Some m) w = (None, errorJob jobId m w)
   \<and> (ev \<in> {Archive_error m, Output_error m, Finalize_rejected m} \<longrightarrow>
         step (t, w) ev = (t, errorJob (t_jobId t) m w))
   \<and> (getJob jobId w = None \<longrightarrow> errorJob jobId m w = w)
   \<and> (\<forall>j. getJob jobId w = Some j \<longrightarrow>
         getJob jobId (errorJob jobId m w) = Some (j\<lparr>status := Error, error := Some m\<rparr>)
         \<and> timers (errorJob jobId m w) = timers w @ [(now w + 30000, Delete_job jobId)]
         \<and> disk (errorJob jobId m w) = disk w
         \<and> download_zip jobId (errorJob jobId m w) = Json_error 400 ''Job not completed''
         \<and> disk (advance d (errorJob jobId m w)) = disk (advance d w)
         \<and> (30000 \<le> d \<longrightarrow> getJob jobId (advance d (errorJob jobId m w)) = None))"
proof (intro conjI allI impI)
  show "createZipWithProgress_setup tempDir jobId foldername (Some m) w = (None, errorJob jobId m w)"
    by (simp add: createZipWithProgress_setup_def)
  show "step (t, w) ev = (t, errorJob (t_jobId t) m w)"
    if "ev \<in> {Archive_error m, Output_error m, Finalize_rejected m}"
    using that by auto
  show "errorJob jobId m w = w" if "getJob jobId w = None"
    using that by (simp add: getJob_def errorJob_def)
next
  fix j
  assume "getJob jobId w = Some j"
  then have j: "activeJobs w jobId = Some j"
    by (simp add: getJob_def)
  note e = errorJob_present [OF j]
  show "getJob jobId (errorJob jobId m w) = Some (j\<lparr>status := Error, error := Some m\<rparr>)"
    by (simp add: e getJob_def)
  show "timers (errorJob jobId m w) = timers w @ [(now w + 30000, Delete_job jobId)]"
    by (simp add: e setTimeout_def)
  show "disk (errorJob jobId m w) = disk w"
    by (simp add: e)
  show "download_zip jobId (errorJob jobId m w) = Json_error 400 ''Job not completed''"
    by (simp add: e download_zip_def getJob_def)
  show "disk (advance d (errorJob jobId m w)) = disk (advance d w)"
    by (simp add: e advance_disk due_by_setTimeout)
  show "getJob jobId (advance d (errorJob jobId m w)) = None" if "30000 \<le> d"
    using that by (simp add: e getJob_def advance_jobs due_by_setTimeout)
qed

theorem error_marks_job_keeps_file_witness:
  "Output_error ''ENOSPC'' \<in> {Archive_error ''ENOSPC'', Output_error ''ENOSPC'', Finalize_rejected ''ENOSPC''}
   \<and> getJob ''nobody'' (photos_job photos [Output_open, Entry ''a.txt'']) = None
   \<and> errorJob ''nobody'' ''ENOSPC'' (photos_job photos [Output_open, Entry ''a.txt''])
       = photos_job photos [Output_open, Entry ''a.txt'']
   \<and> map_option status (getJob ''zip_1000_k3x9q2m1a'' (photos_job photos [Output_open, Entry ''a.txt'']))
       = Some Zipping
   \<and> map_option (\<lambda>j. (status j, error j))
        (getJob ''zip_1000_k3x9q2m1a''
           (errorJob ''zip_1000_k3x9q2m1a'' ''ENOSPC'' (photos_job photos [Output_open, Entry ''a.txt''])))
       = Some (Error, Some ''ENOSPC'')
   \<and> download_zip ''zip_1000_k3x9q2m1a''
        (errorJob ''zip_1000_k3x9q2m1a'' ''ENOSPC'' (photos_job photos [Output_open, Entry ''a.txt'']))
       = Json_error 400 ''Job not completed''
   \<and> (30000::nat) \<le> 30000
   \<and> getJob ''zip_1000_k3x9q2m1a''
        (advance 30000
           (errorJob ''zip_1000_k3x9q2m1a'' ''ENOSPC'' (photos_job photos [Output_open, Entry ''a.txt''])))
       = None"
proof -
  let ?id = "''zip_1000_k3x9q2m1a''"
  let ?w = "photos_job photos [Output_open, Entry ''a.txt'']"
  let ?j = "\<lparr>job_id = ?id, folderPath = ''/data/photos'', startTime = 1000,
      progress = Num 33, status = Zipping, filesProcessed = 1, totalFiles = 3,
      currentFile = ''a.txt'', error = None, zipPath = None\<rparr>"
  have a: "getJob ?id ?w = Some ?j"
    by (simp add: run_defs getJob_def)
  note inst = error_marks_job_keeps_file [where jobId = ?id and w = ?w and m = "''ENOSPC''"
      and d = 30000 and ev = "Output_error ''ENOSPC''"]
  from inst a have b: "getJob ?id (errorJob ?id ''ENOSPC'' ?w)
      = Some (?j\<lparr>status := Error, error := Some ''ENOSPC''\<rparr>)"
    by blast
  from inst a have c: "download_zip ?id (errorJob ?id ''ENOSPC'' ?w) = Json_error 400 ''Job not completed''"
    by blast
  from inst a have d: "getJob ?id (advance 30000 (errorJob ?id ''ENOSPC'' ?w)) = None"
    by simp
  have n: "getJob ''nobody'' ?w = None"
    by (simp add: run_defs getJob_def)
  from n error_marks_job_keeps_file [where jobId = "''nobody''" and w = ?w and m = "''ENOSPC''"]
  have e: "errorJob ''nobody'' ''ENOSPC'' ?w = ?w"
    by blast
  from a b c d n e show ?thesis by simp
qed

section \<open>Artifact names\<close>

text \<open>
  The timestamp is what tells two archives of one folder name apart: their paths
  are equal exactly when the clock readings are.
\<close>

lemma digit_inj: "a < 10 \<Longrightarrow> b < 10 \<Longrightarrow> digit a = digit b \<Longrightarrow> a = b"
proof -
  assume a: "a < 10" and b: "b < 10" and e: "digit a = digit b"
  from a have "a \<in> {0, 1, 2, 3, 4, 5, 6, 7, 8, 9}" by auto
  moreover from b have "b \<in> {0, 1, 2, 3, 4, 5, 6, 7, 8, 9}" by auto
  ultimately show ?thesis
    using e by (auto simp: digit_simps)
qed

lemma digit_not_slash: "d < 10 \<Longrightarrow> digit d \<noteq> CHR ''/''"
proof -
  assume "d < 10"
  then have "d \<in> {0, 1, 2, 3, 4, 5, 6, 7, 8, 9}" by auto
  then show ?thesis
    by (auto simp: digit_simps)
qed

lemma decimal_not_Nil [simp]: "decimal n \<noteq> []" "[] \<noteq> decimal n"
  by (subst decimal.simps, simp)+

lemma decimal_no_slash: "CHR ''/'' \<notin> set (decimal n)"
proof (induction n rule: decimal.induct)
  case (1 n)
  show ?case
  proof (cases "n < 10")
    case True
    then show ?thesis
      using digit_not_slash [of n] by (auto simp: decimal_small)
  next
    case False
    with "1.IH" show ?thesis
      using digit_not_slash [of "n mod 10"] by (auto simp: decimal_step)
  qed
qed

lemma split_path_not_Nil [simp]: "split_path p \<noteq> []"
  by (induction p) (auto split: list.splits)

lemma split_path_append:
  "CHR ''/'' \<notin> set ys \<Longrightarrow>
     split_path (xs @ ys) = butlast (split_path xs) @ [last (split_path xs) @ ys]"
proof (induction xs)
  case Nil
  then show ?case
  proof (induction ys)
    case Nil
    show ?case by simp
  next
    case (Cons y ys)
    then show ?case by (auto split: list.splits)
  qed
next
  case (Cons x xs)
  then show ?case
    by (cases "split_path xs") (auto split: list.splits)
qed

lemma normalizeString_snoc:
  "seg \<noteq> [] \<Longrightarrow> seg \<noteq> ''.'' \<Longrightarrow> seg \<noteq> ''..'' \<Longrightarrow>
     normalizeString ab res (segs @ [seg]) = normalizeString ab res segs @ [seg]"
  by (induction ab res segs rule: normalizeString.induct) (auto split: list.splits)

lemma join_segments_snoc:
  "join_segments (segs @ [seg]) = (if segs = [] then seg else join_segments segs @ ''/'' @ seg)"
  by (induction segs rule: join_segments.induct) auto

lemma normalize_tail:
  assumes "CHR ''/'' \<notin> set ys" and "6 \<le> length ys" and "last ys \<noteq> CHR ''/''"
  shows "\<exists>c. \<forall>zs. CHR ''/'' \<notin> set zs \<longrightarrow> 6 \<le> length zs \<longrightarrow> last zs \<noteq> CHR ''/''
           \<longrightarrow> hd zs = hd ys \<longrightarrow> normalize_path (xs @ zs) = c @ zs"
proof -
  define abs where "abs = (hd (xs @ ys) = CHR ''/'')"
  define segs where "segs = normalizeString (\<not> abs) [] (butlast (split_path xs))"
  define c where "c = (if abs then ''/'' else []) @
      (if segs = [] then [] else join_segments segs @ ''/'') @ last (split_path xs)"
  have "normalize_path (xs @ zs) = c @ zs"
    if z: "CHR ''/'' \<notin> set zs" "6 \<le> length zs" "last zs \<noteq> CHR ''/''" "hd zs = hd ys" for zs
  proof -
    let ?seg = "last (split_path xs) @ zs"
    from z(2) have zn: "zs \<noteq> []" by auto
    from assms(2) have yn: "ys \<noteq> []" by auto
    have len: "6 \<le> length ?seg"
      using z(2) by simp
    then have seg: "?seg \<noteq> []" "?seg \<noteq> ''.''" "?seg \<noteq> ''..''"
      by (auto dest: arg_cong [where f = length])
    have a: "(hd (xs @ zs) = CHR ''/'') = abs"
      using zn yn z(4) by (cases xs) (simp_all add: abs_def)
    have n: "normalizeString (\<not> abs) [] (split_path (xs @ zs)) = segs @ [?seg]"
      by (simp add: split_path_append [OF z(1)] normalizeString_snoc [OF seg] segs_def)
    have l: "last (xs @ zs) \<noteq> CHR ''/''"
      using zn z(3) by simp
    have x: "xs @ zs \<noteq> []"
      using zn by simp
    show ?thesis
    proof (cases abs)
      case True
      with a n have "hd (xs @ zs) = CHR ''/''"
        and "normalizeString False [] (split_path (xs @ zs)) = segs @ [?seg]"
        by simp_all
      with x l zn True show ?thesis
        by (simp add: normalize_path_def Let_def join_segments_snoc c_def)
    next
      case False
      with a n have "hd (xs @ zs) \<noteq> CHR ''/''"
        and "normalizeString True [] (split_path (xs @ zs)) = segs @ [?seg]"
        by simp_all
      with x l zn False show ?thesis
        by (simp add: normalize_path_def Let_def join_segments_snoc c_def)
    qed
  qed
  then show ?thesis
    by blast
qed

lemma zip_path_shape:
  "\<exists>c. \<forall>t. zip_path tempDir foldername t = c @ ''_'' @ decimal t @ ''.zip''"
proof -
  define xs where "xs = (if tempDir = [] then foldername else tempDir @ ''/'' @ foldername)"
  have p: "zip_path tempDir foldername t = normalize_path (xs @ (''_'' @ decimal t @ ''.zip''))" for t
    by (simp add: zip_path_def path_join_def xs_def)
  have ok: "CHR ''/'' \<notin> set (''_'' @ decimal t @ ''.zip'')" "6 \<le> length (''_'' @ decimal t @ ''.zip'')"
    "last (''_'' @ decimal t @ ''.zip'') \<noteq> CHR ''/''" "hd (''_'' @ decimal t @ ''.zip'') = CHR ''_''" for t
    using decimal_no_slash [of t] decimal_not_Nil(1) [of t]
    by (simp_all add: Suc_le_eq)
  from normalize_tail [OF ok(1-3), of 0 xs] obtain c where
    c: "\<And>zs. CHR ''/'' \<notin> set zs \<Longrightarrow> 6 \<le> length zs \<Longrightarrow> last zs \<noteq> CHR ''/''
           \<Longrightarrow> hd zs = hd (''_'' @ decimal 0 @ ''.zip'') \<Longrightarrow> normalize_path (xs @ zs) = c @ zs"
    by blast
  have "zip_path tempDir foldername t = c @ ''_'' @ decimal t @ ''.zip''" for t
    unfolding p using c [OF ok(1-3), of t] by simp
  then show ?thesis
    by blast
qed


lemma decimal_inj: "decimal m = decimal n \<Longrightarrow> m = n"
proof (induction m arbitrary: n rule: decimal.induct)
  case (1 m)
  show ?case
  proof (cases "m < 10")
    case True
    show ?thesis
    proof (cases "n < 10")
      case n: True
      with True "1.prems" show ?thesis
        by (simp add: decimal_small digit_inj)
    next
      case n: False
      with True "1.prems" show ?thesis
        by (simp add: decimal_small decimal_step)
    qed
  next
    case False
    show ?thesis
    proof (cases "n < 10")
      case n: True
      with False "1.prems" [symmetric] show ?thesis
        by (simp add: decimal_small decimal_step)
    next
      case n: False
      with False "1.prems" have "decimal (m div 10) = decimal (n div 10)"
        and d: "digit (m mod 10) = digit (n mod 10)"
        by (simp_all add: decimal_step)
      with False "1.IH" have "m div 10 = n div 10"
        by simp
      moreover from d have "m mod 10 = n mod 10"
        by (simp add: digit_inj)
      ultimately show ?thesis
        by (metis div_mult_mod_eq)
    qed
  qed
qed

lemma zip_path_inj_time:
  "zip_path tempDir foldername t1 = zip_path tempDir foldername t2 \<longleftrightarrow> t1 = t2"
proof
  assume e: "zip_path tempDir foldername t1 = zip_path tempDir foldername t2"
  from zip_path_shape [of tempDir foldername] obtain c where
    "\<And>t. zip_path tempDir foldername t = c @ ''_'' @ decimal t @ ''.zip''"
    by blast
  with e have "decimal t1 = decimal t2"
    by simp
  then show "t1 = t2"
    by (rule decimal_inj)
qed simp

text \<open>
  C9: two start requests for \<^verbatim>\<open>photos\<close> that read the same millisecond from the
  clock get different job ids, and their tasks the same archive path.
\<close>

theorem zip_path_collision:
  "start_zip ''/data/photos'' (Some photos) ''k3x9q2m1a'' (empty_world 1700000000000)
     = Inr (''zip_1700000000000_k3x9q2m1a'',
            createJob ''zip_1700000000000_k3x9q2m1a'' ''/data/photos'' (empty_world 1700000000000))
   \<and> map_sum (\<lambda>e. e) fst
        (start_zip ''/data/photos'' (Some photos) ''p0o9i8u7y''
           (snd (zip_job ''/srv/temp'' ''zip_1700000000000_k3x9q2m1a''
              ''/data/photos'' ''photos'' photos [] (empty_world 1700000000000))))
     = Inr ''zip_1700000000000_p0o9i8u7y''
   \<and> t_zipPath (fst (zip_job ''/srv/temp'' ''zip_1700000000000_k3x9q2m1a''
          ''/data/photos'' ''photos'' photos [] (empty_world 1700000000000)))
       = ''/srv/temp/photos_1700000000000.zip''
   \<and> t_zipPath (fst (zip_job ''/srv/temp'' ''zip_1700000000000_p0o9i8u7y''
          ''/data/photos'' ''photos'' photos []
          (snd (zip_job ''/srv/temp'' ''zip_1700000000000_k3x9q2m1a''
             ''/data/photos'' ''photos'' photos [] (empty_world 1700000000000)))))
       = ''/srv/temp/photos_1700000000000.zip''"
  by (simp add: run_defs new_job_id_def Let_def decimal_small decimal_step digit_simps)

section \<open>A second download\<close>



end
